theory Spec2Isabelle
  imports Complex_Main "HOL-Library.Log_Nat" "HOL-Library.Char_ord" "HOL-Library.List_Lexorder"
    "HOL-Library.Multiset"
begin

section \<open>Text\<close>

text \<open>
  A Python \<open>str\<close> is a sequence of code points. The model is \<^typ>\<open>string\<close>, whose
  characters are the code points below 256 (the Latin-1 range, which holds every literal
  of the two source files, \<open>0xFC\<close> being the u-umlaut of the group synonym). A cell that
  \<open>csv.DictReader\<close> leaves out is \<open>None\<close>: a field is a \<^typ>\<open>string option\<close>.
\<close>

definition or_empty :: "string option \<Rightarrow> string" where
  \<comment> \<open>\<open>(text or "")\<close>\<close>
  "or_empty text = (case text of None \<Rightarrow> [] | Some s \<Rightarrow> s)"

definition isspace :: "char \<Rightarrow> bool" where
  \<comment> \<open>\<open>str.isspace\<close> on one code point\<close>
  "isspace c = (let n = (of_char c :: nat)
                in (9 \<le> n \<and> n \<le> 13) \<or> (28 \<le> n \<and> n \<le> 32) \<or> n = 133 \<or> n = 160)"

definition strip :: "string \<Rightarrow> string" where
  \<comment> \<open>\<open>str.strip()\<close>\<close>
  "strip s = rev (dropWhile isspace (rev (dropWhile isspace s)))"

definition lower_char :: "char \<Rightarrow> char" where
  "lower_char c = (let n = (of_char c :: nat)
                   in if (65 \<le> n \<and> n \<le> 90) \<or> (192 \<le> n \<and> n \<le> 222 \<and> n \<noteq> 215)
                      then char_of (n + 32) else c)"

definition lower :: "string \<Rightarrow> string" where
  \<comment> \<open>\<open>str.lower()\<close>\<close>
  "lower s = map lower_char s"

definition remove_char :: "char \<Rightarrow> string \<Rightarrow> string" where
  \<comment> \<open>\<open>text.replace(c, "")\<close>\<close>
  "remove_char c s = filter (\<lambda>x. x \<noteq> c) s"

definition replace_char :: "char \<Rightarrow> char \<Rightarrow> string \<Rightarrow> string" where
  \<comment> \<open>\<open>text.replace(c, d)\<close>\<close>
  "replace_char c d s = map (\<lambda>x. if x = c then d else x) s"

definition is_digit :: "char \<Rightarrow> bool" where
  "is_digit c = (48 \<le> (of_char c :: nat) \<and> (of_char c :: nat) \<le> 57)"

definition digit_val :: "char \<Rightarrow> nat" where
  "digit_val c = of_char c - 48"

definition digit_char :: "nat \<Rightarrow> char" where
  "digit_char n = char_of (48 + n)"

definition nat_of_digits :: "string \<Rightarrow> nat" where
  "nat_of_digits ds = foldl (\<lambda>a c. 10 * a + digit_val c) 0 ds"

fun str_nat :: "nat \<Rightarrow> string" where
  "str_nat n = (if n < 10 then [digit_char n] else str_nat (n div 10) @ [digit_char (n mod 10)])"

declare str_nat.simps [simp del]

definition hex_char :: "nat \<Rightarrow> char" where
  "hex_char n = (if n < 10 then char_of (48 + n) else char_of (87 + n))"

definition repr_char :: "char \<Rightarrow> char \<Rightarrow> string" where
  \<comment> \<open>one code point inside \<open>repr\<close> of a \<open>str\<close>, quoted by \<open>q\<close>\<close>
  "repr_char q c =
     (let n = (of_char c :: nat)
      in if c = q \<or> c = CHR 0x5C then [CHR 0x5C, c]
         else if n = 9 then [CHR 0x5C, CHR ''t'']
         else if n = 10 then [CHR 0x5C, CHR ''n'']
         else if n = 13 then [CHR 0x5C, CHR ''r'']
         else if n < 32 \<or> (127 \<le> n \<and> n \<le> 160) \<or> n = 173
              then [CHR 0x5C, CHR ''x'', hex_char (n div 16), hex_char (n mod 16)]
         else [c])"

definition repr :: "string \<Rightarrow> string" where
  \<comment> \<open>\<open>repr\<close> of a \<open>str\<close>: double quotes only when it holds an apostrophe and no double quote\<close>
  "repr s =
     (let q = (if CHR 0x27 \<in> set s \<and> CHR 0x22 \<notin> set s then CHR 0x22 else CHR 0x27)
      in [q] @ concat (map (repr_char q) s) @ [q])"

section \<open>Floating-point numbers\<close>

text \<open>
  A Python \<open>float\<close> is an IEEE 754 binary64 value: a finite number, an infinity or a NaN.
  A finite value is held as the rational number it denotes; the two zeros are identified.
  \<open>round64\<close> rounds an exact rational result to the nearest binary64 value, ties to the
  even significand, with overflow to an infinity: the rounding that decimal-to-float
  conversion and float addition and subtraction perform.
\<close>

datatype pyfloat = Fin rat | PInf | NInf | NaN

definition pow2 :: "int \<Rightarrow> rat" where
  "pow2 e = (if 0 \<le> e then 2 ^ nat e else 1 / 2 ^ nat (- e))"

definition ilog2 :: "rat \<Rightarrow> int" where
  \<comment> \<open>the binary exponent \<open>\<lfloor>log\<^sub>2 q\<rfloor>\<close> of a positive rational\<close>
  "ilog2 q = (let (a, b) = quotient_of q; k = bitlen a - bitlen b
              in if pow2 k \<le> q then k else k - 1)"

definition round_half_even :: "rat \<Rightarrow> int" where
  "round_half_even x =
     (let f = \<lfloor>x\<rfloor>; d = x - of_int f
      in if d < 1 / 2 then f else if 1 / 2 < d then f + 1
         else if even f then f else f + 1)"

definition round64 :: "rat \<Rightarrow> pyfloat" where
  "round64 q =
     (if q = 0 then Fin 0
      else let e = max (ilog2 \<bar>q\<bar>) (- 1022) - 52;
               r = of_int (round_half_even (q / pow2 e)) * pow2 e
           in if pow2 1024 \<le> \<bar>r\<bar> then (if 0 < q then PInf else NInf) else Fin r)"

fun fadd :: "pyfloat \<Rightarrow> pyfloat \<Rightarrow> pyfloat" where
  \<comment> \<open>\<open>x + y\<close> on floats\<close>
  "fadd (Fin a) (Fin b) = round64 (a + b)"
| "fadd NaN _ = NaN"
| "fadd _ NaN = NaN"
| "fadd PInf NInf = NaN"
| "fadd NInf PInf = NaN"
| "fadd PInf _ = PInf"
| "fadd _ PInf = PInf"
| "fadd NInf _ = NInf"
| "fadd _ NInf = NInf"

fun fneg :: "pyfloat \<Rightarrow> pyfloat" where
  "fneg (Fin a) = Fin (- a)"
| "fneg PInf = NInf"
| "fneg NInf = PInf"
| "fneg NaN = NaN"

definition fsub :: "pyfloat \<Rightarrow> pyfloat \<Rightarrow> pyfloat" where
  \<comment> \<open>\<open>x - y\<close> on floats\<close>
  "fsub x y = fadd x (fneg y)"

subsection \<open>The builtin \<open>float(text)\<close>\<close>

text \<open>
  \<open>float\<close> of a \<open>str\<close> strips white space, accepts underscores between digits, and then
  reads an optional sign followed by a decimal number with an optional exponent, or by
  one of the words \<open>inf\<close>, \<open>infinity\<close>, \<open>nan\<close> in any letter case. The value is the decimal
  number correctly rounded. Anything else raises \<open>ValueError\<close>, here \<open>None\<close>.
\<close>

definition float_space :: "char \<Rightarrow> bool" where
  "float_space c = (let n = (of_char c :: nat) in (9 \<le> n \<and> n \<le> 13) \<or> n = 32 \<or> n = 133 \<or> n = 160)"

fun underscores_ok :: "char \<Rightarrow> string \<Rightarrow> bool" where
  \<comment> \<open>an underscore stands only between two digits; the first argument is the previous character\<close>
  "underscores_ok prev [] = (prev \<noteq> CHR ''_'')"
| "underscores_ok prev (c # cs) =
     ((if c = CHR ''_'' then is_digit prev else if prev = CHR ''_'' then is_digit c else True)
      \<and> underscores_ok c cs)"

definition take_sign :: "string \<Rightarrow> bool \<times> string" where
  "take_sign s = (case s of [] \<Rightarrow> (False, [])
                  | c # cs \<Rightarrow> if c = CHR ''-'' then (True, cs)
                             else if c = CHR ''+'' then (False, cs) else (False, s))"

definition parse_exponent :: "string \<Rightarrow> int option" where
  \<comment> \<open>what follows the number: nothing, or \<open>e\<close>, an optional sign and at least one digit\<close>
  "parse_exponent s =
     (case s of [] \<Rightarrow> Some 0
      | c # cs \<Rightarrow>
          if c = CHR ''e'' \<or> c = CHR ''E''
          then (let (neg, ds) = take_sign cs
                in if ds \<noteq> [] \<and> list_all is_digit ds
                   then Some (if neg then - int (nat_of_digits ds) else int (nat_of_digits ds))
                   else None)
          else None)"

definition parse_number :: "string \<Rightarrow> rat option" where
  \<comment> \<open>digits, an optional point, digits, with a digit on one side at least, then the exponent\<close>
  "parse_number s =
     (let ip = takeWhile is_digit s; r1 = dropWhile is_digit s;
          has_point = (r1 \<noteq> [] \<and> hd r1 = CHR ''.'');
          r2 = (if has_point then tl r1 else r1);
          fp = (if has_point then takeWhile is_digit r2 else []);
          r3 = (if has_point then dropWhile is_digit r2 else r2)
      in if ip = [] \<and> fp = [] then None
         else case parse_exponent r3 of
                None \<Rightarrow> None
              | Some ex \<Rightarrow>
                  (let m = of_nat (nat_of_digits (ip @ fp)); e10 = ex - int (length fp)
                   in Some (if 0 \<le> e10 then m * 10 ^ nat e10 else m / 10 ^ nat (- e10))))"

definition ascii_lower :: "char \<Rightarrow> char" where
  "ascii_lower c = (let n = (of_char c :: nat) in if 65 \<le> n \<and> n \<le> 90 then char_of (n + 32) else c)"

definition float_of_str :: "string \<Rightarrow> pyfloat option" where
  "float_of_str text =
     (let s = rev (dropWhile float_space (rev (dropWhile float_space text)))
      in if \<not> underscores_ok (CHR 0x00) s then None
         else let (neg, body) = take_sign (remove_char (CHR ''_'') s);
                  word = map ascii_lower body
              in if word = ''inf'' \<or> word = ''infinity'' then Some (if neg then NInf else PInf)
                 else if word = ''nan'' then Some NaN
                 else case parse_number body of
                        None \<Rightarrow> None
                      | Some q \<Rightarrow> Some (round64 (if neg then - q else q)))"

section \<open>Errors\<close>

text \<open>
  Every failure of the source is a \<open>ValueError\<close> told apart by its message. The
  constructors name the raising site after the error taxonomy; the argument is the message
  the source builds. A row failure holds the line number, the cause, and what the caller
  appends to the message.
\<close>

datatype error =
    EmptyValue string
  | MalformedNumber string
  | UnrecognizedDateFormat string
  | InvalidKind string
  | MissingHeader string
  | MissingColumns string
  | RowFailure nat error string

fun str_of_error :: "error \<Rightarrow> string" where
  \<comment> \<open>\<open>str(e)\<close>\<close>
  "str_of_error (EmptyValue m) = m"
| "str_of_error (MalformedNumber m) = m"
| "str_of_error (UnrecognizedDateFormat m) = m"
| "str_of_error (InvalidKind m) = m"
| "str_of_error (MissingHeader m) = m"
| "str_of_error (MissingColumns m) = m"
| "str_of_error (RowFailure n e suffix) =
     ''Fehler in Zeile '' @ str_nat n @ '': '' @ str_of_error e @ suffix"

section \<open>Field normalizers (budget.py)\<close>

definition parse_amount :: "string option \<Rightarrow> error + pyfloat" where
  "parse_amount text =
     (let text = strip (or_empty text)
      in if text = [] then Inl (EmptyValue ''amount ist leer'')
         else let text = remove_char (CHR 0x27) text;
                  text = remove_char (CHR '' '') text;
                  text = replace_char (CHR '','') (CHR ''.'') text
              in case float_of_str text of
                   None \<Rightarrow> Inl (MalformedNumber (''could not convert string to float: '' @ repr text))
                 | Some v \<Rightarrow> Inr v)"

definition normalize_kind :: "string option \<Rightarrow> error + string" where
  "normalize_kind text =
     (let v = lower (strip (or_empty text))
      in if v \<in> set [''income'', ''ein'', ''einnahme'', ''einnahmen''] then Inr ''income''
         else if v \<in> set [''expense'', ''aus'', ''ausgabe'', ''ausgaben''] then Inr ''expense''
         else Inl (InvalidKind ''kind muss income oder expense sein''))"

definition normalize_group :: "string option \<Rightarrow> string" where
  "normalize_group text =
     (let v = lower (strip (or_empty text))
      in if v \<in> set [''fix'', ''fixkosten''] then ''fix''
         else if v \<in> set [''want'', ''wunsch'',
                            [CHR ''w'', CHR 0xFC, CHR ''n'', CHR ''s'', CHR ''c'', CHR ''h'', CHR ''e''],
                            ''wuensche''] then ''want''
         else if v \<in> set [''save'', ''sparen''] then ''save''
         else ''other'')"

definition CATEGORY_TO_GROUP :: "(string \<times> string) list" where
  "CATEGORY_TO_GROUP =
     [(''Miete'', ''fix''), (''Krankenkasse'', ''fix''), ([CHR 0xD6, CHR ''V''], ''fix''),
      (''Handy'', ''fix''), (''Internet'', ''fix''), (''Strom'', ''fix''), (''Abo'', ''fix''),
      (''Restaurant'', ''want''), (''Kino'', ''want''), (''Games'', ''want''),
      (''Kleidung'', ''want''), (''Hobby'', ''want''),
      (''Sparen'', ''save''), (''Investieren'', ''save'')]"

definition group_for_category :: "string \<Rightarrow> string option \<Rightarrow> string" where
  "group_for_category category group_text =
     (let group_text = strip (or_empty group_text)
      in if group_text = []
         then (case map_of CATEGORY_TO_GROUP category of None \<Rightarrow> ''other'' | Some g \<Rightarrow> g)
         else normalize_group (Some group_text))"

subsection \<open>Dates\<close>

record pydate =
  year :: nat
  month :: nat
  day :: nat

definition is_leap :: "nat \<Rightarrow> bool" where
  "is_leap y = (y mod 4 = 0 \<and> (y mod 100 \<noteq> 0 \<or> y mod 400 = 0))"

definition days_in_month :: "nat \<Rightarrow> nat \<Rightarrow> nat" where
  "days_in_month y m =
     (if m = 2 then (if is_leap y then 29 else 28)
      else if m \<in> {4, 6, 9, 11} then 30 else 31)"

definition valid_date :: "nat \<Rightarrow> nat \<Rightarrow> nat \<Rightarrow> bool" where
  \<comment> \<open>the range check of the \<open>date\<close> constructor\<close>
  "valid_date y m d = (1 \<le> y \<and> y \<le> 9999 \<and> 1 \<le> m \<and> m \<le> 12 \<and> 1 \<le> d \<and> d \<le> days_in_month y m)"

text \<open>
  \<open>datetime.strptime\<close> turns the format into a regular expression, one group for each
  directive, and matches it at the start of the text: \<open>%Y\<close> is four digits, \<open>%m\<close> is
  \<open>1[0-2]|0[1-9]|[1-9]\<close>, \<open>%d\<close> is \<open>3[01]|[12]\d|0[1-9]|[1-9]| [1-9]\<close>. A format is
  the list of its directives and literal characters. \<open>rx_match\<close> lists the matches in the
  order in which the backtracking matcher finds them, so that the first is the one that
  \<open>re.match\<close> returns; text left over after that match is an error, and so is a date that
  does not exist.
\<close>

datatype directive = DirY | Dirm | Dird | Lit char

definition alt1 :: "(char \<Rightarrow> bool) \<Rightarrow> string \<Rightarrow> (string \<times> string) list" where
  "alt1 p s = (case s of a # rest \<Rightarrow> if p a then [([a], rest)] else [] | _ \<Rightarrow> [])"

definition alt2 :: "(char \<Rightarrow> bool) \<Rightarrow> (char \<Rightarrow> bool) \<Rightarrow> string \<Rightarrow> (string \<times> string) list" where
  "alt2 p q s = (case s of a # b # rest \<Rightarrow> if p a \<and> q b then [([a, b], rest)] else [] | _ \<Rightarrow> [])"

definition digit19 :: "char \<Rightarrow> bool" where
  "digit19 c = (is_digit c \<and> c \<noteq> CHR ''0'')"

fun rx_directive :: "directive \<Rightarrow> string \<Rightarrow> (string \<times> string) list" where
  "rx_directive DirY s =
     (case s of a # b # c # d # rest \<Rightarrow>
        if is_digit a \<and> is_digit b \<and> is_digit c \<and> is_digit d then [([a, b, c, d], rest)] else []
      | _ \<Rightarrow> [])"
| "rx_directive Dirm s =
     alt2 (\<lambda>c. c = CHR ''1'') (\<lambda>c. c \<in> set ''012'') s
     @ alt2 (\<lambda>c. c = CHR ''0'') digit19 s
     @ alt1 digit19 s"
| "rx_directive Dird s =
     alt2 (\<lambda>c. c = CHR ''3'') (\<lambda>c. c \<in> set ''01'') s
     @ alt2 (\<lambda>c. c \<in> set ''12'') is_digit s
     @ alt2 (\<lambda>c. c = CHR ''0'') digit19 s
     @ alt1 digit19 s
     @ alt2 (\<lambda>c. c = CHR '' '') digit19 s"
| "rx_directive (Lit x) s = alt1 (\<lambda>c. c = x) s"

fun rx_match :: "directive list \<Rightarrow> string \<Rightarrow> ((directive \<times> string) list \<times> string) list" where
  "rx_match [] s = [([], s)]"
| "rx_match (d # ds) s =
     concat (map (\<lambda>(cap, rest). map (\<lambda>(caps, r). ((d, cap) # caps, r)) (rx_match ds rest))
                 (rx_directive d s))"

definition group_int :: "directive \<Rightarrow> nat \<Rightarrow> (directive \<times> string) list \<Rightarrow> nat" where
  \<comment> \<open>\<open>int\<close> of a captured group, which skips the blank of \<open>%d\<close>; the default where the
      format has no such directive\<close>
  "group_int d dflt caps =
     (case map_of caps d of None \<Rightarrow> dflt | Some cap \<Rightarrow> nat_of_digits (filter is_digit cap))"

definition strptime :: "string \<Rightarrow> directive list \<Rightarrow> pydate option" where
  \<comment> \<open>\<open>datetime.strptime(value, fmt).date()\<close>, \<open>None\<close> for \<open>ValueError\<close>\<close>
  "strptime v fmt =
     (case rx_match fmt v of
        [] \<Rightarrow> None
      | (caps, rest) # _ \<Rightarrow>
          if rest \<noteq> [] then None
          else let y = group_int DirY 1900 caps; m = group_int Dirm 1 caps; d = group_int Dird 1 caps
               in if valid_date y m d then Some \<lparr>year = y, month = m, day = d\<rparr> else None)"

definition formats :: "directive list list" where
  \<comment> \<open>\<open>"%Y-%m-%d"\<close>, \<open>"%d.%m.%Y"\<close>, \<open>"%d/%m/%Y"\<close>, \<open>"%d-%m-%Y"\<close>\<close>
  "formats =
     [[DirY, Lit (CHR ''-''), Dirm, Lit (CHR ''-''), Dird],
      [Dird, Lit (CHR ''.''), Dirm, Lit (CHR ''.''), DirY],
      [Dird, Lit (CHR ''/''), Dirm, Lit (CHR ''/''), DirY],
      [Dird, Lit (CHR ''-''), Dirm, Lit (CHR ''-''), DirY]]"

fun try_formats :: "string \<Rightarrow> directive list list \<Rightarrow> pydate option" where
  \<comment> \<open>the loop \<open>for fmt in formats\<close>: the first format that parses returns\<close>
  "try_formats v [] = None"
| "try_formats v (fmt # fmts) =
     (case strptime v fmt of Some d \<Rightarrow> Some d | None \<Rightarrow> try_formats v fmts)"

text \<open>
  The fallback \<open>datetime.fromisoformat(value).date()\<close> belongs to the standard library and
  what it accepts depends on the Python version: it is the parameter \<open>fromiso\<close>, \<open>None\<close> where
  it raises.
\<close>

definition parse_date :: "(string \<Rightarrow> pydate option) \<Rightarrow> string option \<Rightarrow> error + pydate" where
  "parse_date fromiso text =
     (let v = strip (or_empty text)
      in if v = [] then Inl (EmptyValue ''date ist leer'')
         else case try_formats v formats of
                Some d \<Rightarrow> Inr d
              | None \<Rightarrow>
                  (case fromiso v of
                     Some d \<Rightarrow> Inr d
                   | None \<Rightarrow> Inl (UnrecognizedDateFormat (''Unbekanntes Datumsformat: '' @ v))))"

section \<open>Transaction Parser\<close>

text \<open>
  A transaction is the dict that the parsers build. A row is what \<open>csv.DictReader\<close>
  yields: \<open>row.get(col)\<close> is \<open>None\<close> for a column the header lacks and for a cell the
  line lacks. The parsers are modelled from the reader's field names (\<open>None\<close> for a file
  without header line) and its rows.
\<close>

record transaction =
  tx_date :: string
  tx_date_obj :: pydate
  tx_kind :: string
  tx_amount :: pyfloat
  tx_category :: string
  tx_group :: string
  tx_note :: string

type_synonym row = "string \<Rightarrow> string option"

definition convert_row :: "(string \<Rightarrow> pydate option) \<Rightarrow> row \<Rightarrow> error + transaction" where
  \<comment> \<open>the body of the \<open>try\<close> block of both parsers\<close>
  "convert_row fromiso r =
     (case normalize_kind (r ''kind'') of
        Inl e \<Rightarrow> Inl e
      | Inr kind \<Rightarrow>
     (case parse_amount (r ''amount'') of
        Inl e \<Rightarrow> Inl e
      | Inr amount \<Rightarrow>
     (let category = strip (or_empty (r ''category''))
      in if category = [] then Inl (EmptyValue ''category ist leer'')
         else let grp = group_for_category category (r ''group'')
              in case parse_date fromiso (r ''date'') of
                   Inl e \<Rightarrow> Inl e
                 | Inr d \<Rightarrow>
                     Inr \<lparr>tx_date = strip (or_empty (r ''date'')), tx_date_obj = d,
                          tx_kind = kind, tx_amount = amount, tx_category = category,
                          tx_group = grp, tx_note = strip (or_empty (r ''note''))\<rparr>)))"

fun rows_loop ::
  "(string \<Rightarrow> pydate option) \<Rightarrow> string \<Rightarrow> nat \<Rightarrow> transaction list \<Rightarrow> row list \<Rightarrow> error + transaction list"
where
  \<comment> \<open>\<open>for row in reader\<close>, with \<open>line_nr\<close> and the list built so far; \<open>suffix\<close> is what the
      caller appends to the message of a row failure\<close>
  "rows_loop fromiso suffix line_nr transactions [] = Inr transactions"
| "rows_loop fromiso suffix line_nr transactions (r # rest) =
     (let line_nr = line_nr + 1
      in case convert_row fromiso r of
           Inl e \<Rightarrow> Inl (RowFailure line_nr e suffix)
         | Inr tx \<Rightarrow> rows_loop fromiso suffix line_nr (transactions @ [tx]) rest)"

definition required :: "string list" where
  "required = [''date'', ''kind'', ''amount'', ''category'']"

fun check_columns :: "string list \<Rightarrow> string list \<Rightarrow> error option" where
  \<comment> \<open>budget.py: \<open>for col in required: if col not in reader.fieldnames: raise\<close>\<close>
  "check_columns fieldnames [] = None"
| "check_columns fieldnames (col # cols) =
     (if col \<notin> set fieldnames then Some (MissingColumns (''Spalte fehlt: '' @ col))
      else check_columns fieldnames cols)"

definition load_transactions ::
  "(string \<Rightarrow> pydate option) \<Rightarrow> string list option \<Rightarrow> row list \<Rightarrow> error + transaction list"
where
  "load_transactions fromiso fieldnames rows =
     (case fieldnames of
        None \<Rightarrow> Inl (MissingHeader ''CSV hat keine Kopfzeile'')
      | Some fns \<Rightarrow>
          (case check_columns fns required of
             Some e \<Rightarrow> Inl e
           | None \<Rightarrow> rows_loop fromiso [] 1 [] rows))"

fun join :: "string \<Rightarrow> string list \<Rightarrow> string" where
  \<comment> \<open>\<open>sep.join(xs)\<close>\<close>
  "join sep [] = []"
| "join sep [x] = x"
| "join sep (x # y # ys) = x @ sep @ join sep (y # ys)"

record parsed_data =
  transactions :: "transaction list"
  warnings :: "string list"

definition parse_transactions_from_upload ::
  "(string \<Rightarrow> pydate option) \<Rightarrow> string list option \<Rightarrow> row list \<Rightarrow> string option \<Rightarrow> error + parsed_data"
where
  \<comment> \<open>dashboard.py, from the reader on; \<open>filename\<close> is \<open>None\<close> or a name\<close>
  "parse_transactions_from_upload fromiso fieldnames rows filename =
     (case fieldnames of
        None \<Rightarrow> Inl (MissingHeader ''CSV hat keine Kopfzeile'')
      | Some fns \<Rightarrow>
          (let missing = filter (\<lambda>c. c \<notin> set fns) (remdups required)
           in if missing \<noteq> []
              then Inl (MissingColumns (''Spalten fehlen: '' @ join '', '' (sort missing)))
              else case rows_loop fromiso ('' (Datei: '' @ (if or_empty filename = [] then ''upload'' else or_empty filename) @ '')'')
                                  1 [] rows of
                     Inl e \<Rightarrow> Inl e
                   | Inr txs \<Rightarrow>
                       Inr \<lparr>transactions = txs,
                            warnings = (if length txs = 0
                                        then [''CSV enth'' @ [CHR 0xE4] @ ''lt keine Datenzeilen (nur Header?)'']
                                        else [])\<rparr>))"

section \<open>The CSV reader\<close>

text \<open>
  \<open>load_transactions\<close> opens the file with \<open>newline=""\<close> and hands it to \<open>csv.DictReader\<close>
  with the default dialect: comma, double quote, a doubled quote inside a quoted cell, not
  strict. The reader of the standard library (CPython 3.11) is modelled as it is written:
  the file yields its lines, ended by a line feed, a carriage return or both; the reader
  feeds the characters of a line and then the end of the line to a state machine, and a
  record is complete when the machine is back in \<open>START_RECORD\<close>, so that a quoted cell can
  span lines. A record comes with the number of lines read so far (\<open>reader.line_num\<close>). The
  flag tells whether the reader raised \<open>csv.Error\<close> after the records listed.
\<close>

fun split_lines :: "string \<Rightarrow> string \<Rightarrow> string list" where
  "split_lines cur [] = (if cur = [] then [] else [cur])"
| "split_lines cur (c # cs) =
     (if c = CHR 0x0A then (cur @ [c]) # split_lines [] cs
      else if c = CHR 0x0D
      then (case cs of
              d # ds \<Rightarrow> if d = CHR 0x0A then (cur @ [c, d]) # split_lines [] ds
                        else (cur @ [c]) # split_lines [] cs
            | [] \<Rightarrow> [cur @ [c]])
      else split_lines (cur @ [c]) cs)"

definition file_lines :: "string \<Rightarrow> string list" where
  "file_lines text = split_lines [] text"

datatype csv_state =
  START_RECORD | START_FIELD | IN_FIELD | IN_QUOTED_FIELD | QUOTE_IN_QUOTED_FIELD | EAT_CRNL

record csv_parser =
  p_state :: csv_state
  p_fields :: "string list"
  p_field :: string

definition field_limit :: nat where
  "field_limit = 131072"

definition parse_add_char :: "csv_parser \<Rightarrow> csv_state \<Rightarrow> char \<Rightarrow> csv_parser option" where
  "parse_add_char p st c =
     (if field_limit \<le> length (p_field p) then None
      else Some (p\<lparr>p_state := st, p_field := p_field p @ [c]\<rparr>))"

definition parse_save_field :: "csv_parser \<Rightarrow> csv_state \<Rightarrow> csv_parser option" where
  "parse_save_field p st = Some (p\<lparr>p_state := st, p_fields := p_fields p @ [p_field p], p_field := []\<rparr>)"

definition is_newline :: "char \<Rightarrow> bool" where
  "is_newline c = (c = CHR 0x0A \<or> c = CHR 0x0D)"

definition start_field :: "csv_parser \<Rightarrow> char option \<Rightarrow> csv_parser option" where
  "start_field p c =
     (case c of
        None \<Rightarrow> parse_save_field p START_RECORD
      | Some x \<Rightarrow>
          if is_newline x then parse_save_field p EAT_CRNL
          else if x = CHR 0x22 then Some (p\<lparr>p_state := IN_QUOTED_FIELD\<rparr>)
          else if x = CHR '','' then parse_save_field p START_FIELD
          else parse_add_char p IN_FIELD x)"

definition parse_process_char :: "csv_parser \<Rightarrow> char option \<Rightarrow> csv_parser option" where
  "parse_process_char p c =
     (case p_state p of
        START_RECORD \<Rightarrow>
          (case c of
             None \<Rightarrow> Some p
           | Some x \<Rightarrow> if is_newline x then Some (p\<lparr>p_state := EAT_CRNL\<rparr>) else start_field p c)
      | START_FIELD \<Rightarrow> start_field p c
      | IN_FIELD \<Rightarrow>
          (case c of
             None \<Rightarrow> parse_save_field p START_RECORD
           | Some x \<Rightarrow>
               if is_newline x then parse_save_field p EAT_CRNL
               else if x = CHR '','' then parse_save_field p START_FIELD
               else parse_add_char p IN_FIELD x)
      | IN_QUOTED_FIELD \<Rightarrow>
          (case c of
             None \<Rightarrow> Some p
           | Some x \<Rightarrow>
               if x = CHR 0x22 then Some (p\<lparr>p_state := QUOTE_IN_QUOTED_FIELD\<rparr>)
               else parse_add_char p IN_QUOTED_FIELD x)
      | QUOTE_IN_QUOTED_FIELD \<Rightarrow>
          (case c of
             None \<Rightarrow> parse_save_field p START_RECORD
           | Some x \<Rightarrow>
               if x = CHR 0x22 then parse_add_char p IN_QUOTED_FIELD x
               else if x = CHR '','' then parse_save_field p START_FIELD
               else if is_newline x then parse_save_field p EAT_CRNL
               else parse_add_char p IN_FIELD x)
      | EAT_CRNL \<Rightarrow>
          (case c of
             None \<Rightarrow> Some (p\<lparr>p_state := START_RECORD\<rparr>)
           | Some x \<Rightarrow> if is_newline x then Some p else None))"

fun parse_line :: "csv_parser \<Rightarrow> string \<Rightarrow> csv_parser option" where
  "parse_line p [] = parse_process_char p None"
| "parse_line p (c # cs) =
     (case parse_process_char p (Some c) of None \<Rightarrow> None | Some q \<Rightarrow> parse_line q cs)"

definition parse_reset :: csv_parser where
  "parse_reset = \<lparr>p_state = START_RECORD, p_fields = [], p_field = []\<rparr>"

fun reader_next :: "csv_parser \<Rightarrow> nat \<Rightarrow> string list \<Rightarrow> (string list \<times> nat) list \<times> bool" where
  "reader_next p line_num [] =
     (if p_field p \<noteq> [] \<or> p_state p = IN_QUOTED_FIELD
      then ([(p_fields p @ [p_field p], line_num)], False) else ([], False))"
| "reader_next p line_num (line # lines) =
     (case parse_line p line of
        None \<Rightarrow> ([], True)
      | Some q \<Rightarrow>
          if p_state q = START_RECORD
          then (case reader_next parse_reset (line_num + 1) lines of
                  (recs, raised) \<Rightarrow> ((p_fields q, line_num + 1) # recs, raised))
          else reader_next q (line_num + 1) lines)"

definition csv_reader :: "string \<Rightarrow> (string list \<times> nat) list \<times> bool" where
  "csv_reader text = reader_next parse_reset 0 (file_lines text)"


text \<open>
  \<open>csv.DictReader\<close> takes the first record as the field names, skips every record without
  cells (a blank line) and turns each other record into a dict; a cell that the line lacks
  is \<open>None\<close>, and of two columns of the same name the later one counts.
  \<open>load_transactions_file\<close> is \<open>load_transactions\<close> from the text of the file; \<open>None\<close> is a
  \<open>csv.Error\<close> of the reader, which the source does not catch.
\<close>

definition dict_row :: "string list \<Rightarrow> string list \<Rightarrow> row" where
  "dict_row fieldnames cells =
     (\<lambda>col. case map_of (rev (zip fieldnames
                                  (map Some cells @ replicate (length fieldnames - length cells) None))) col of
              None \<Rightarrow> None
            | Some v \<Rightarrow> v)"

definition reader_fieldnames :: "(string list \<times> nat) list \<Rightarrow> string list option" where
  "reader_fieldnames recs = (case recs of [] \<Rightarrow> None | r # _ \<Rightarrow> Some (fst r))"

definition reader_rows :: "(string list \<times> nat) list \<Rightarrow> (row \<times> nat) list" where
  "reader_rows recs =
     (case recs of
        [] \<Rightarrow> []
      | h # rest \<Rightarrow> map (\<lambda>r. (dict_row (fst h) (fst r), snd r)) (filter (\<lambda>r. fst r \<noteq> []) rest))"

definition load_transactions_file ::
  "(string \<Rightarrow> pydate option) \<Rightarrow> string \<Rightarrow> (error + transaction list) option"
where
  "load_transactions_file fromiso text =
     (case csv_reader text of
        (recs, raised) \<Rightarrow>
          if recs = [] \<and> raised then None
          else case load_transactions fromiso (reader_fieldnames recs) (map fst (reader_rows recs)) of
                 Inl e \<Rightarrow> Some (Inl e)
               | Inr txs \<Rightarrow> if raised then None else Some (Inr txs))"

section \<open>Aggregation Engine\<close>

text \<open>
  A \<open>defaultdict(float)\<close> is an association list in insertion order; \<open>d[k] += a\<close> adds to
  the entry of \<open>k\<close>, which starts at \<open>0.0\<close>. Two dicts are equal in Python when they
  hold the same keys with the same values, whatever the order: when \<open>map_of\<close> agrees.
\<close>

fun add_to :: "'k \<Rightarrow> pyfloat \<Rightarrow> ('k \<times> pyfloat) list \<Rightarrow> ('k \<times> pyfloat) list" where
  "add_to k a [] = [(k, fadd (Fin 0) a)]"
| "add_to k a ((k', v) # d) = (if k' = k then (k', fadd v a) # d else (k', v) # add_to k a d)"

fun add_to2 ::
  "'m \<Rightarrow> 'k \<Rightarrow> pyfloat \<Rightarrow> ('m \<times> ('k \<times> pyfloat) list) list \<Rightarrow> ('m \<times> ('k \<times> pyfloat) list) list"
where
  \<comment> \<open>\<open>dd[m][k] += a\<close> on a \<open>defaultdict\<close> of \<open>defaultdict(float)\<close>\<close>
  "add_to2 m k a [] = [(m, add_to k a [])]"
| "add_to2 m k a ((m', d) # dd) =
     (if m' = m then (m', add_to k a d) # dd else (m', d) # add_to2 m k a dd)"

definition dict2 :: "('m \<times> ('k \<times> pyfloat) list) list \<Rightarrow> 'm \<Rightarrow> ('k \<Rightarrow> pyfloat option) option" where
  \<comment> \<open>a dict of dicts, up to the order of its entries\<close>
  "dict2 dd m = map_option map_of (map_of dd m)"

subsection \<open>budget.py\<close>

definition totals_step :: "pyfloat \<times> pyfloat \<Rightarrow> transaction \<Rightarrow> pyfloat \<times> pyfloat" where
  "totals_step acc tx =
     (case acc of (income, expense) \<Rightarrow>
        if tx_kind tx = ''income'' then (fadd income (tx_amount tx), expense)
        else (income, fadd expense (tx_amount tx)))"

definition compute_totals :: "transaction list \<Rightarrow> pyfloat \<times> pyfloat \<times> pyfloat" where
  "compute_totals txs =
     (case foldl totals_step (Fin 0, Fin 0) txs of
        (income, expense) \<Rightarrow> (income, expense, fsub income expense))"

definition sum_expenses_by_category :: "transaction list \<Rightarrow> (string \<times> pyfloat) list" where
  "sum_expenses_by_category txs =
     foldl (\<lambda>acc tx. if tx_kind tx = ''expense''
                       then add_to (tx_category tx) (tx_amount tx) acc else acc) [] txs"

definition sum_expenses_by_group :: "transaction list \<Rightarrow> (string \<times> pyfloat) list" where
  "sum_expenses_by_group txs =
     foldl (\<lambda>acc tx. if tx_kind tx = ''expense''
                       then add_to (tx_group tx) (tx_amount tx) acc else acc) [] txs"

definition sum_values :: "('k \<times> pyfloat) list \<Rightarrow> pyfloat" where
  \<comment> \<open>\<open>sum(d.values())\<close>, adding from the left\<close>
  "sum_values d = foldl fadd (Fin 0) (map snd d)"

subsection \<open>dashboard.py\<close>

definition pad2 :: "nat \<Rightarrow> string" where
  "pad2 n = [digit_char (n div 10), digit_char (n mod 10)]"

definition month_key :: "pydate \<Rightarrow> string" where
  \<comment> \<open>\<open>d.strftime("%Y-%m")\<close>, the year as the C library on Linux prints it\<close>
  "month_key d = str_nat (year d) @ ''-'' @ pad2 (month d)"

record aggregates =
  monthly_cat :: "(string \<times> (string \<times> pyfloat) list) list"
  monthly_group :: "(string \<times> (string \<times> pyfloat) list) list"
  monthly_income :: "(string \<times> pyfloat) list"
  monthly_expense :: "(string \<times> pyfloat) list"
  totals_by_category :: "(string \<times> pyfloat) list"
  totals_by_group :: "(string \<times> pyfloat) list"

definition aggregate_step :: "aggregates \<Rightarrow> transaction \<Rightarrow> aggregates" where
  \<comment> \<open>the body of \<open>for tx in transactions\<close>\<close>
  "aggregate_step g tx =
     (let m = month_key (tx_date_obj tx)
      in if tx_kind tx = ''income''
         then g\<lparr>monthly_income := add_to m (tx_amount tx) (monthly_income g)\<rparr>
         else g\<lparr>monthly_expense := add_to m (tx_amount tx) (monthly_expense g),
                 monthly_cat := add_to2 m (tx_category tx) (tx_amount tx) (monthly_cat g),
                 monthly_group := add_to2 m (tx_group tx) (tx_amount tx) (monthly_group g),
                 totals_by_category := add_to (tx_category tx) (tx_amount tx) (totals_by_category g),
                 totals_by_group := add_to (tx_group tx) (tx_amount tx) (totals_by_group g)\<rparr>)"

definition empty_aggregates :: aggregates where
  "empty_aggregates =
     \<lparr>monthly_cat = [], monthly_group = [], monthly_income = [], monthly_expense = [],
      totals_by_category = [], totals_by_group = []\<rparr>"

definition compute_aggregates :: "transaction list \<Rightarrow> string list \<times> aggregates" where
  \<comment> \<open>the sorted months, then the six dicts\<close>
  "compute_aggregates txs =
     (let g = foldl aggregate_step empty_aggregates txs
      in (sort (remdups (map fst (monthly_income g) @ map fst (monthly_expense g))), g))"

section \<open>Notions used to state the properties\<close>

text \<open>
  \<open>fsum\<close> is the float sum of a list taken from the left, starting at \<open>0.0\<close>, the way every
  accumulator of the source adds. \<open>accumulate\<close> and \<open>accumulate2\<close> are the two loop shapes of
  the aggregation: a dict of sums by key, and a dict by month of such dicts. A list of
  floats is \<open>exactly_summable\<close> at the binary exponent \<open>e\<close> when its members are finite
  whole multiples of \<open>2\<^sup>e\<close> and their magnitudes add up to less than \<open>2\<^sup>5\<^sup>3\<close> such units:
  then no float addition of them rounds.
\<close>

definition fsum :: "pyfloat list \<Rightarrow> pyfloat" where
  "fsum vs = foldl fadd (Fin 0) vs"

definition accumulate ::
  "(transaction \<Rightarrow> 'k) \<Rightarrow> (transaction \<Rightarrow> bool) \<Rightarrow> transaction list \<Rightarrow> ('k \<times> pyfloat) list" where
  "accumulate key sel txs =
     foldl (\<lambda>acc tx. if sel tx then add_to (key tx) (tx_amount tx) acc else acc) [] txs"

definition accumulate2 ::
  "(transaction \<Rightarrow> 'm) \<Rightarrow> (transaction \<Rightarrow> 'k) \<Rightarrow> (transaction \<Rightarrow> bool) \<Rightarrow> transaction list
     \<Rightarrow> ('m \<times> ('k \<times> pyfloat) list) list" where
  "accumulate2 mkey key sel txs =
     foldl (\<lambda>acc tx. if sel tx then add_to2 (mkey tx) (key tx) (tx_amount tx) acc else acc) [] txs"

definition value_of :: "pyfloat \<Rightarrow> rat" where
  "value_of v = (case v of Fin q \<Rightarrow> q | _ \<Rightarrow> 0)"

definition on_grid :: "int \<Rightarrow> pyfloat \<Rightarrow> bool" where
  "on_grid e v = (case v of Fin q \<Rightarrow> of_int \<lfloor>q / pow2 e\<rfloor> = q / pow2 e | _ \<Rightarrow> False)"

definition exactly_summable :: "int \<Rightarrow> pyfloat list \<Rightarrow> bool" where
  "exactly_summable e vs =
     (- 1074 \<le> e \<and> e \<le> 971 \<and> list_all (on_grid e) vs
      \<and> sum_list (map (\<lambda>v. \<bar>value_of v\<bar>) vs) < pow2 (e + 53))"

definition is_income :: "transaction \<Rightarrow> bool" where
  "is_income tx = (tx_kind tx = ''income'')"

definition month_of :: "transaction \<Rightarrow> string" where
  "month_of tx = month_key (tx_date_obj tx)"

definition abs_total :: "pyfloat list \<Rightarrow> rat" where
  "abs_total vs = sum_list (map (\<lambda>v. \<bar>value_of v\<bar>) vs)"

text \<open>
  For the amount normalizer: \<open>clean_amount\<close> is the text that \<open>parse_amount\<close> hands to
  \<open>float\<close>, and \<open>float_core\<close> what \<open>float\<close> reads of it once white space and underscores
  are gone. \<open>decimal_literal\<close> is a decimal literal in the usual sense: an optional sign,
  digits with an optional decimal point and at least one digit, an optional exponent.
  \<open>inf_or_nan\<close> is one of the words \<open>inf\<close>, \<open>infinity\<close>, \<open>nan\<close> in any letter case, with an
  optional sign. \<open>amount_char\<close> holds of the characters that an accepted amount text can
  contain.
\<close>

definition clean_amount :: "string \<Rightarrow> string" where
  "clean_amount s = replace_char (CHR '','') (CHR ''.'') (remove_char (CHR '' '') (remove_char (CHR 0x27) (strip s)))"

definition float_core :: "string \<Rightarrow> string" where
  "float_core t = remove_char (CHR ''_'') (rev (dropWhile float_space (rev (dropWhile float_space t))))"








text \<open>
  For the parsers: a row \<open>normalizer_fails\<close> when one of the checks of the \<open>try\<close> block
  raises (kind, amount, empty category, date); \<open>upload_suffix\<close> is what the dashboard
  appends to the message of a row failure.
\<close>

definition normalizer_fails :: "(string \<Rightarrow> pydate option) \<Rightarrow> row \<Rightarrow> bool" where
  "normalizer_fails fromiso r =
     (isl (normalize_kind (r ''kind'')) \<or> isl (parse_amount (r ''amount''))
      \<or> strip (or_empty (r ''category'')) = [] \<or> isl (parse_date fromiso (r ''date'')))"

definition upload_suffix :: "string option \<Rightarrow> string" where
  "upload_suffix filename =
     '' (Datei: '' @ (if or_empty filename = [] then ''upload'' else or_empty filename) @ '')''"

text \<open>
  For the line numbers: \<open>file_fieldnames\<close> and \<open>file_rows\<close> are the field names and the rows
  that \<open>csv.DictReader\<close> yields for the text of a file, each row with the line on which its
  record ends. \<open>lines_are_records text k\<close> says that each of the first \<open>k\<close> lines of the file
  holds one record with a cell at least: none of them is blank and no cell spans lines.
\<close>

definition file_fieldnames :: "string \<Rightarrow> string list option" where
  "file_fieldnames text = reader_fieldnames (fst (csv_reader text))"

definition file_rows :: "string \<Rightarrow> (row \<times> nat) list" where
  "file_rows text = reader_rows (fst (csv_reader text))"

definition lines_are_records :: "string \<Rightarrow> nat \<Rightarrow> bool" where
  "lines_are_records text k =
     (let recs = take k (fst (csv_reader text))
      in map snd recs = [1..<k + 1] \<and> [] \<notin> set (map fst recs))"

subsection \<open>Example inputs\<close>

definition example_tx :: "string \<Rightarrow> string \<Rightarrow> string \<Rightarrow> rat \<Rightarrow> transaction" where
  "example_tx kind category grp q =
     \<lparr>tx_date = ''2026-01-05'', tx_date_obj = \<lparr>year = 2026, month = 1, day = 5\<rparr>,
      tx_kind = kind, tx_amount = Fin q, tx_category = category, tx_group = grp, tx_note = []\<rparr>"

definition example_row :: "string \<Rightarrow> string \<Rightarrow> string \<Rightarrow> row" where
  "example_row kind amount category =
     [''date'' \<mapsto> ''2026-01-05'', ''kind'' \<mapsto> kind, ''amount'' \<mapsto> amount, ''category'' \<mapsto> category]"

text \<open>
  Two files: in the first, line 2 is blank and line 3 is a row without amount; in the second,
  line 2 is a good row and line 3 the row without amount.
\<close>

definition blank_line_file :: string where
  "blank_line_file =
     ''date,kind,amount,category'' @ [CHR 0x0A] @ [CHR 0x0A] @ ''2026-01-05,expense,,Miete'' @ [CHR 0x0A]"

definition bad_third_line_file :: string where
  "bad_third_line_file =
     ''date,kind,amount,category'' @ [CHR 0x0A] @ ''2026-01-05,income,1200,Lohn'' @ [CHR 0x0A]
     @ ''2026-01-05,expense,,Miete'' @ [CHR 0x0A]"

section \<open>Properties of the text functions\<close>

lemma strip_Nil: "strip [] = []"
  by (simp add: strip_def)

lemma or_empty_simps: "or_empty None = []" "or_empty (Some s) = s"
  by (simp_all add: or_empty_def)

lemma lower_Nil: "lower [] = []"
  by (simp add: lower_def)

section \<open>Rounding to binary64\<close>

lemma pow2_powi: "pow2 e = 2 powi e"
  by (simp add: pow2_def power_int_def inverse_eq_divide power_one_over)

lemma pow2_pos [simp]: "0 < pow2 e"
  by (simp add: pow2_powi)

lemma pow2_neq0 [simp]: "pow2 e \<noteq> 0"
  using pow2_pos [of e] by linarith

lemma abs_pow2 [simp]: "\<bar>pow2 e\<bar> = pow2 e"
  using pow2_pos [of e] by linarith

lemma pow2_add: "pow2 (a + b) = pow2 a * pow2 b"
  by (simp add: pow2_powi power_int_add)

lemma pow2_diff: "pow2 (a - b) = pow2 a / pow2 b"
  by (simp add: pow2_powi power_int_diff)

lemma pow2_mono: "a \<le> b \<Longrightarrow> pow2 a \<le> pow2 b"
  by (simp add: pow2_powi power_int_increasing)

lemma pow2_strict_mono: "a < b \<Longrightarrow> pow2 a < pow2 b"
  by (simp add: pow2_powi power_int_strict_increasing)

lemma pow2_nonneg_exp: "0 \<le> e \<Longrightarrow> pow2 e = of_int (2 ^ nat e)"
  by (simp add: pow2_def)

lemma pow2_less_cancel: "pow2 a < pow2 b \<Longrightarrow> a < b"
  using pow2_mono [of b a] by (cases "a < b") auto

lemma ilog2_bounds:
  assumes "0 < q"
  shows "pow2 (ilog2 q) \<le> q \<and> q < pow2 (ilog2 q + 1)"
proof -
  obtain a b where ab: "quotient_of q = (a, b)"
    by (cases "quotient_of q") auto
  have b: "0 < b"
    using ab by (rule quotient_of_denom_pos)
  have q: "q = of_int a / of_int b"
    using ab by (simp add: quotient_of_div)
  have a: "0 < a"
    using assms b unfolding q by (simp add: zero_less_divide_iff)
  define la lb where "la = bitlen a" and "lb = bitlen b"
  have la: "2 ^ nat (la - 1) \<le> a" "a < 2 ^ nat la"
    using bitlen_bounds [OF a] by (simp_all add: la_def)
  have lb: "2 ^ nat (lb - 1) \<le> b" "b < 2 ^ nat lb"
    using bitlen_bounds [OF b] by (simp_all add: lb_def)
  have la1: "1 \<le> la"
    using a by (simp add: la_def bitlen_alt_def)
  have lb1: "1 \<le> lb"
    using b by (simp add: lb_def bitlen_alt_def)
  have ra: "pow2 (la - 1) \<le> of_int a" "of_int a < pow2 la"
    using la la1 by (simp_all add: pow2_nonneg_exp)
  have rb: "pow2 (lb - 1) \<le> of_int b" "of_int b < pow2 lb"
    using lb lb1 by (simp_all add: pow2_nonneg_exp)
  have rb0: "(0::rat) < of_int b" and ra0: "(0::rat) < of_int a"
    using a b by simp_all
  have up: "q < pow2 (la - lb + 1)"
  proof -
    have "q < pow2 la / of_int b"
      unfolding q using ra(2) rb0 by (simp add: divide_strict_right_mono)
    also have "\<dots> \<le> pow2 la / pow2 (lb - 1)"
      using rb(1) pow2_pos [of la] pow2_pos [of "lb - 1"] rb0
      by (intro divide_left_mono) (simp_all add: less_imp_le)
    also have "\<dots> = pow2 (la - lb + 1)"
      using pow2_diff [of la "lb - 1"] by (simp add: algebra_simps)
    finally show ?thesis .
  qed
  have lo: "pow2 (la - lb - 1) < q"
  proof -
    have "pow2 (la - lb - 1) = pow2 (la - 1) / pow2 lb"
      using pow2_diff [of "la - 1" lb] by (simp add: algebra_simps)
    also have "\<dots> < pow2 (la - 1) / of_int b"
      using rb(2) rb0 by (simp add: divide_strict_left_mono)
    also have "\<dots> \<le> q"
      unfolding q using ra(1) rb0 by (simp add: divide_right_mono)
    finally show ?thesis .
  qed
  show ?thesis
    using up lo ab by (auto simp: ilog2_def la_def lb_def Let_def less_imp_le)
qed

lemma ilog2_unique:
  assumes "pow2 L \<le> q" "q < pow2 (L + 1)"
  shows "ilog2 q = L"
proof -
  have q: "0 < q"
    using assms(1) pow2_pos [of L] by linarith
  from ilog2_bounds [OF q] have b: "pow2 (ilog2 q) \<le> q" "q < pow2 (ilog2 q + 1)"
    by simp_all
  have "pow2 L < pow2 (ilog2 q + 1)"
    using assms(1) b(2) by linarith
  then have 1: "L < ilog2 q + 1"
    by (rule pow2_less_cancel)
  have "pow2 (ilog2 q) < pow2 (L + 1)"
    using assms(2) b(1) by linarith
  then have 2: "ilog2 q < L + 1"
    by (rule pow2_less_cancel)
  from 1 2 show ?thesis by simp
qed

lemma round_half_even_of_int: "round_half_even (of_int n) = n"
  by (simp add: round_half_even_def)

lemma round64_exact:
  assumes k: "\<bar>k\<bar> < 2 ^ 53" and e: "- 1074 \<le> e" "e \<le> 971"
  shows "round64 (of_int k * pow2 e) = Fin (of_int k * pow2 e)"
proof (cases "k = 0")
  case True
  then show ?thesis by (simp add: round64_def)
next
  case False
  define q where "q = of_int k * pow2 e"
  have q0: "q \<noteq> 0"
    using False by (simp add: q_def)
  have absq: "\<bar>q\<bar> = of_int \<bar>k\<bar> * pow2 e"
    by (simp add: q_def abs_mult)
  have kr: "(of_int \<bar>k\<bar> :: rat) < 2 ^ 53"
    using k by (metis of_int_less_iff of_int_numeral of_int_power)
  have p53: "pow2 53 = 2 ^ 53"
    by (simp add: pow2_def)
  have "\<bar>q\<bar> < pow2 53 * pow2 e"
    unfolding absq p53 using kr pow2_pos [of e] by (rule mult_strict_right_mono)
  then have qub: "\<bar>q\<bar> < pow2 (53 + e)"
    by (simp add: pow2_add)
  define L where "L = ilog2 \<bar>q\<bar>"
  have "pow2 L \<le> \<bar>q\<bar>"
    using ilog2_bounds [of "\<bar>q\<bar>"] q0 by (simp add: L_def)
  then have "pow2 L < pow2 (53 + e)"
    using qub by linarith
  then have L: "L < 53 + e"
    by (rule pow2_less_cancel)
  define E where "E = max L (- 1022) - 52"
  have E: "E \<le> e"
    using L e by (simp add: E_def)
  have "q / pow2 E = of_int k * pow2 (e - E)"
    by (simp add: q_def pow2_diff)
  also have "\<dots> = of_int (k * 2 ^ nat (e - E))"
    using E by (simp add: pow2_nonneg_exp)
  finally have m: "q / pow2 E = of_int (k * 2 ^ nat (e - E))" .
  have r: "of_int (round_half_even (q / pow2 E)) * pow2 E = q"
    unfolding m round_half_even_of_int using m [symmetric] by simp
  have "pow2 (53 + e) \<le> pow2 1024"
    using e by (intro pow2_mono) simp
  then have fin: "\<not> pow2 1024 \<le> \<bar>q\<bar>"
    using qub by linarith
  show ?thesis
    using q0 r fin unfolding q_def [symmetric] round64_def L_def [symmetric] Let_def E_def [symmetric]
    by simp
qed

lemma floor_rat_numeral [simp]:
  "\<lfloor>numeral a / numeral b :: rat\<rfloor> = numeral a div numeral b"
  by (metis floor_divide_of_int_eq of_int_numeral)

lemma floor_rat_neg_numeral [simp]:
  "\<lfloor>- (numeral a / numeral b :: rat)\<rfloor> = - numeral a div numeral b"
  by (metis floor_divide_of_int_eq of_int_numeral of_int_minus minus_divide_left)

lemma round_half_even_between: "\<lfloor>x\<rfloor> \<le> round_half_even x \<and> round_half_even x \<le> \<lceil>x\<rceil>"
proof -
  have "x - of_int \<lfloor>x\<rfloor> < 1 / 2 \<or> \<lfloor>x\<rfloor> < \<lceil>x\<rceil>"
    by (metis ceiling_altdef diff_self less_le_not_le linorder_not_less of_int_floor_le
        zero_less_divide_1_iff zero_less_numeral add.commute less_add_one)
  then show ?thesis
    by (auto simp: round_half_even_def Let_def floor_le_ceiling)
qed

lemma round_half_even_abs:
  assumes "\<bar>x\<bar> \<le> of_int N"
  shows "\<bar>round_half_even x\<bar> \<le> N"
proof -
  have "- of_int N \<le> x" "x \<le> of_int N"
    using assms by linarith+
  then have "- N \<le> \<lfloor>x\<rfloor>" "\<lceil>x\<rceil> \<le> N"
    by (simp_all add: le_floor_iff ceiling_le_iff)
  with round_half_even_between [of x] show ?thesis
    by linarith
qed

lemma round64_at:
  assumes lo: "pow2 L \<le> \<bar>q\<bar>" and hi: "\<bar>q\<bar> < pow2 (L + 1)"
    and L: "- 1022 \<le> L" "L \<le> 1022"
    and n: "round_half_even (q / pow2 (L - 52)) = n"
  shows "round64 q = Fin (of_int n * pow2 (L - 52))"
proof -
  have "0 < \<bar>q\<bar>"
    using lo pow2_pos [of L] by linarith
  then have q0: "q \<noteq> 0"
    by simp
  have il: "ilog2 \<bar>q\<bar> = L"
    using lo hi by (rule ilog2_unique)
  have "\<bar>q / pow2 (L - 52)\<bar> = \<bar>q\<bar> / pow2 (L - 52)"
    by (simp add: abs_divide)
  also have "\<dots> \<le> pow2 (L + 1) / pow2 (L - 52)"
    using hi by (simp add: divide_right_mono less_imp_le)
  also have "\<dots> = pow2 53"
    using pow2_diff [of "L + 1" "L - 52"] by simp
  also have "\<dots> = of_int (2 ^ 53)"
    by (simp add: pow2_def)
  finally have "\<bar>n\<bar> \<le> 2 ^ 53"
    unfolding n [symmetric] by (rule round_half_even_abs)
  then have "\<bar>of_int n :: rat\<bar> \<le> 2 ^ 53"
    by (metis of_int_abs of_int_le_iff of_int_numeral of_int_power)
  then have "\<bar>of_int n * pow2 (L - 52)\<bar> \<le> 2 ^ 53 * pow2 (L - 52)"
    by (simp add: abs_mult mult_right_mono)
  also have "\<dots> = pow2 53 * pow2 (L - 52)"
    by (simp add: pow2_def [of 53])
  also have "\<dots> = pow2 (L + 1)"
    using pow2_add [of 53 "L - 52"] by (simp add: algebra_simps)
  also have "\<dots> < pow2 1024"
    using L by (intro pow2_strict_mono) simp
  finally have fin: "\<not> pow2 1024 \<le> \<bar>of_int n * pow2 (L - 52)\<bar>"
    by simp
  show ?thesis
    using q0 fin L(1) by (simp add: round64_def il Let_def n max_def)
qed

section \<open>Sums by key\<close>

lemma value_of_Fin [simp]: "value_of (Fin q) = q"
  by (simp add: value_of_def)

lemma map_of_add_to:
  "map_of (add_to k a d) = (map_of d)(k \<mapsto> fadd (case map_of d k of None \<Rightarrow> Fin 0 | Some v \<Rightarrow> v) a)"
  by (induction d) (auto simp: fun_eq_iff)

lemma map_of_add_to2:
  "map_of (add_to2 m k a dd) = (map_of dd)(m \<mapsto> add_to k a (case map_of dd m of None \<Rightarrow> [] | Some d \<Rightarrow> d))"
  by (induction dd) (auto simp: fun_eq_iff)

lemma accumulate_snoc:
  "accumulate key sel (txs @ [tx]) =
     (if sel tx then add_to (key tx) (tx_amount tx) (accumulate key sel txs) else accumulate key sel txs)"
  by (simp add: accumulate_def)

lemma accumulate2_snoc:
  "accumulate2 mkey key sel (txs @ [tx]) =
     (if sel tx then add_to2 (mkey tx) (key tx) (tx_amount tx) (accumulate2 mkey key sel txs)
      else accumulate2 mkey key sel txs)"
  by (simp add: accumulate2_def)

lemma fsum_snoc: "fsum (vs @ [v]) = fadd (fsum vs) v"
  by (simp add: fsum_def)

lemma fsum_Nil: "fsum [] = Fin 0"
  by (simp add: fsum_def)

lemma map_of_accumulate:
  "map_of (accumulate key sel txs) k =
     (if filter (\<lambda>tx. sel tx \<and> key tx = k) txs = [] then None
      else Some (fsum (map tx_amount (filter (\<lambda>tx. sel tx \<and> key tx = k) txs))))"
proof (induction txs rule: rev_induct)
  case Nil
  then show ?case by (simp add: accumulate_def)
next
  case (snoc tx txs)
  show ?case
  proof (cases "sel tx \<and> key tx = k")
    case True
    then have "key tx = k" "sel tx" by simp_all
    then show ?thesis
      using snoc by (simp add: accumulate_snoc map_of_add_to fsum_snoc fsum_Nil)
  next
    case False
    then show ?thesis
      using snoc by (auto simp: accumulate_snoc map_of_add_to)
  qed
qed

lemma map_of_accumulate2:
  "map_of (accumulate2 mkey key sel txs) m =
     (if filter (\<lambda>tx. sel tx \<and> mkey tx = m) txs = [] then None
      else Some (accumulate key (\<lambda>tx. True) (filter (\<lambda>tx. sel tx \<and> mkey tx = m) txs)))"
proof (induction txs rule: rev_induct)
  case Nil
  then show ?case by (simp add: accumulate2_def)
next
  case (snoc tx txs)
  show ?case
  proof (cases "sel tx \<and> mkey tx = m")
    case True
    then have "mkey tx = m" "sel tx" by simp_all
    then show ?thesis
      using snoc by (simp add: accumulate2_snoc map_of_add_to2 accumulate_snoc) (simp add: accumulate_def)
  next
    case False
    then show ?thesis
      using snoc by (auto simp: accumulate2_snoc map_of_add_to2)
  qed
qed

lemma on_grid_Fin: "on_grid e (Fin q) \<longleftrightarrow> (\<exists>k. q = of_int k * pow2 e)"
proof
  assume "on_grid e (Fin q)"
  then have h: "of_int \<lfloor>q / pow2 e\<rfloor> = q / pow2 e"
    unfolding on_grid_def by (simp only: pyfloat.case)
  have "q = (q / pow2 e) * pow2 e"
    by simp
  then have "q = of_int \<lfloor>q / pow2 e\<rfloor> * pow2 e"
    by (simp only: h)
  then show "\<exists>k. q = of_int k * pow2 e" ..
next
  assume "\<exists>k. q = of_int k * pow2 e"
  then show "on_grid e (Fin q)"
    by (auto simp: on_grid_def)
qed

lemma on_grid_special: "\<not> on_grid e PInf" "\<not> on_grid e NInf" "\<not> on_grid e NaN"
  by (simp_all add: on_grid_def)

lemma on_grid_cases:
  assumes "on_grid e v"
  obtains k where "v = Fin (of_int k * pow2 e)"
  using assms by (cases v) (auto simp: on_grid_Fin on_grid_special)

lemma round64_grid:
  assumes e: "- 1074 \<le> e" "e \<le> 971" and b: "\<bar>of_int k * pow2 e\<bar> < pow2 (e + 53)"
  shows "round64 (of_int k * pow2 e) = Fin (of_int k * pow2 e)"
proof -
  have "of_int \<bar>k\<bar> * pow2 e < pow2 53 * pow2 e"
    using b by (simp add: abs_mult pow2_add mult.commute)
  then have "(of_int \<bar>k\<bar> :: rat) < pow2 53"
    using pow2_pos [of e] by (simp add: mult_less_cancel_right)
  then have "(of_int \<bar>k\<bar> :: rat) < of_int (2 ^ 53)"
    by (simp add: pow2_def)
  then have "\<bar>k\<bar> < 2 ^ 53"
    by (simp only: of_int_less_iff)
  then show ?thesis
    using e by (rule round64_exact)
qed

lemma sum_on_grid:
  "list_all (on_grid e) vs \<Longrightarrow> \<exists>k. sum_list (map value_of vs) = of_int k * pow2 e"
proof (induction vs)
  case Nil
  show ?case by (simp add: exI [of _ 0])
next
  case (Cons v vs)
  then obtain k where k: "sum_list (map value_of vs) = of_int k * pow2 e"
    by auto
  from Cons.prems obtain j where j: "v = Fin (of_int j * pow2 e)"
    by (auto elim: on_grid_cases)
  have "sum_list (map value_of (v # vs)) = of_int (j + k) * pow2 e"
    by (simp add: k j value_of_def algebra_simps)
  then show ?case ..
qed

lemma abs_sum_le: "\<bar>sum_list (map value_of vs)\<bar> \<le> sum_list (map (\<lambda>v. \<bar>value_of v\<bar>) vs)"
  by (induction vs) auto

lemma exactly_summable_butlast:
  assumes "exactly_summable e (vs @ [v])"
  shows "exactly_summable e vs"
proof -
  have "sum_list (map (\<lambda>v. \<bar>value_of v\<bar>) vs) \<le> sum_list (map (\<lambda>v. \<bar>value_of v\<bar>) (vs @ [v]))"
    by simp
  then show ?thesis
    using assms by (auto simp: exactly_summable_def)
qed

lemma fsum_exact:
  "exactly_summable e vs \<Longrightarrow> fsum vs = Fin (sum_list (map value_of vs))"
proof (induction vs rule: rev_induct)
  case Nil
  show ?case by (simp add: fsum_Nil)
next
  case (snoc v vs)
  have ih: "fsum vs = Fin (sum_list (map value_of vs))"
    using snoc.IH exactly_summable_butlast [OF snoc.prems] by simp
  have e: "- 1074 \<le> e" "e \<le> 971"
    using snoc.prems by (simp_all add: exactly_summable_def)
  have grid: "list_all (on_grid e) (vs @ [v])"
    using snoc.prems by (simp add: exactly_summable_def)
  then obtain j where j: "v = Fin (of_int j * pow2 e)"
    by (auto elim: on_grid_cases)
  obtain k where k: "sum_list (map value_of (vs @ [v])) = of_int k * pow2 e"
    using sum_on_grid [OF grid] by auto
  have "\<bar>sum_list (map value_of (vs @ [v]))\<bar> < pow2 (e + 53)"
    using abs_sum_le [of "vs @ [v]"] snoc.prems by (simp add: exactly_summable_def)
  then have "round64 (of_int k * pow2 e) = Fin (of_int k * pow2 e)"
    unfolding k using e by (intro round64_grid) simp_all
  then have r: "round64 (sum_list (map value_of (vs @ [v]))) = Fin (sum_list (map value_of (vs @ [v])))"
    by (simp only: k)
  have "fsum (vs @ [v]) = round64 (sum_list (map value_of vs) + of_int j * pow2 e)"
    by (simp add: fsum_snoc ih j)
  also have "\<dots> = round64 (sum_list (map value_of (vs @ [v])))"
    by (simp add: j value_of_def)
  finally show ?case
    using r by simp
qed

lemma exactly_summable_mset:
  assumes "exactly_summable e vs" "mset ws \<subseteq># mset vs"
  shows "exactly_summable e ws"
proof -
  have set: "set ws \<subseteq> set vs"
    using assms(2) by (metis set_mset_mono set_mset_mset)
  obtain D where D: "mset vs = mset ws + D"
    using assms(2) by (metis subset_mset.le_iff_add)
  have "sum_list (map (\<lambda>v. \<bar>value_of v\<bar>) vs) = sum_mset (image_mset (\<lambda>v. \<bar>value_of v\<bar>) (mset vs))"
    by (metis mset_map sum_mset_sum_list)
  also have "\<dots> = sum_mset (image_mset (\<lambda>v. \<bar>value_of v\<bar>) (mset ws))
      + sum_mset (image_mset (\<lambda>v. \<bar>value_of v\<bar>) D)"
    by (simp add: D)
  also have "sum_mset (image_mset (\<lambda>v. \<bar>value_of v\<bar>) (mset ws)) = sum_list (map (\<lambda>v. \<bar>value_of v\<bar>) ws)"
    by (metis mset_map sum_mset_sum_list)
  finally have eq: "sum_list (map (\<lambda>v. \<bar>value_of v\<bar>) vs)
      = sum_list (map (\<lambda>v. \<bar>value_of v\<bar>) ws) + sum_mset (image_mset (\<lambda>v. \<bar>value_of v\<bar>) D)" .
  obtain ds where "mset ds = D"
    using ex_mset by blast
  then have "sum_mset (image_mset (\<lambda>v. \<bar>value_of v\<bar>) D) = sum_list (map (\<lambda>v. \<bar>value_of v\<bar>) ds)"
    by (metis mset_map sum_mset_sum_list)
  also have "0 \<le> \<dots>"
    by (rule sum_list_nonneg) auto
  finally have "sum_list (map (\<lambda>v. \<bar>value_of v\<bar>) ws) \<le> sum_list (map (\<lambda>v. \<bar>value_of v\<bar>) vs)"
    using eq by simp
  then show ?thesis
    using assms(1) set by (auto simp: exactly_summable_def list_all_iff)
qed

lemma sum_value_mset:
  "mset ws = mset vs \<Longrightarrow> sum_list (map value_of ws) = sum_list (map value_of vs)"
  by (metis mset_map sum_mset_sum_list)

lemma fsum_permutation:
  assumes "exactly_summable e vs" "mset ws = mset vs"
  shows "fsum ws = fsum vs"
proof -
  have "exactly_summable e ws"
    using assms by (intro exactly_summable_mset [OF assms(1)]) simp
  then show ?thesis
    using assms fsum_exact [of e ws] fsum_exact [of e vs] sum_value_mset [OF assms(2)] by simp
qed

lemma sum_expenses_by_category_accumulate:
  "sum_expenses_by_category txs = accumulate tx_category (\<lambda>tx. tx_kind tx = ''expense'') txs"
  by (simp add: sum_expenses_by_category_def accumulate_def)

lemma sum_expenses_by_group_accumulate:
  "sum_expenses_by_group txs = accumulate tx_group (\<lambda>tx. tx_kind tx = ''expense'') txs"
  by (simp add: sum_expenses_by_group_def accumulate_def)

lemma foldl_totals_step:
  "foldl totals_step (Fin 0, Fin 0) txs =
     (fsum (map tx_amount (filter is_income txs)),
      fsum (map tx_amount (filter (\<lambda>tx. \<not> is_income tx) txs)))"
  by (induction txs rule: rev_induct) (simp_all add: totals_step_def fsum_Nil fsum_snoc is_income_def)

lemma compute_totals_fsum:
  "compute_totals txs =
     (fsum (map tx_amount (filter is_income txs)),
      fsum (map tx_amount (filter (\<lambda>tx. \<not> is_income tx) txs)),
      fsub (fsum (map tx_amount (filter is_income txs)))
           (fsum (map tx_amount (filter (\<lambda>tx. \<not> is_income tx) txs))))"
  by (simp add: compute_totals_def foldl_totals_step)

lemma foldl_aggregate_step:
  "foldl aggregate_step empty_aggregates txs =
     \<lparr>monthly_cat = accumulate2 month_of tx_category (\<lambda>tx. \<not> is_income tx) txs,
      monthly_group = accumulate2 month_of tx_group (\<lambda>tx. \<not> is_income tx) txs,
      monthly_income = accumulate month_of is_income txs,
      monthly_expense = accumulate month_of (\<lambda>tx. \<not> is_income tx) txs,
      totals_by_category = accumulate tx_category (\<lambda>tx. \<not> is_income tx) txs,
      totals_by_group = accumulate tx_group (\<lambda>tx. \<not> is_income tx) txs\<rparr>"
proof (induction txs rule: rev_induct)
  case Nil
  show ?case by (simp add: empty_aggregates_def accumulate_def accumulate2_def)
next
  case (snoc tx txs)
  then show ?case
    by (simp add: aggregate_step_def accumulate_snoc accumulate2_snoc is_income_def month_of_def Let_def)
qed

lemma filter_perm_Nil:
  assumes "mset txs' = mset txs"
  shows "filter P txs' = [] \<longleftrightarrow> filter P txs = []"
proof -
  have "set txs' = set txs"
    using assms by (rule mset_eq_setD)
  then show ?thesis
    by (simp add: filter_empty_conv)
qed

lemma amounts_filter_perm:
  assumes "mset txs' = mset txs"
  shows "mset (map tx_amount (filter P txs')) = mset (map tx_amount (filter P txs))"
  using assms by (metis mset_filter mset_map)

lemma amounts_filter_sub:
  "mset (map tx_amount (filter P txs)) \<subseteq># mset (map tx_amount txs)"
  by (metis image_mset_subseteq_mono mset_filter mset_map multiset_filter_subset)

lemma fsum_filter_perm:
  assumes "exactly_summable e (map tx_amount txs)" "mset txs' = mset txs"
  shows "fsum (map tx_amount (filter P txs')) = fsum (map tx_amount (filter P txs))"
proof -
  have "exactly_summable e (map tx_amount (filter P txs))"
    using assms(1) amounts_filter_sub by (rule exactly_summable_mset)
  then show ?thesis
    using amounts_filter_perm [OF assms(2)] by (rule fsum_permutation)
qed

lemma map_of_accumulate_perm:
  assumes "exactly_summable e (map tx_amount txs)" "mset txs' = mset txs"
  shows "map_of (accumulate key sel txs') = map_of (accumulate key sel txs)"
proof
  fix k
  show "map_of (accumulate key sel txs') k = map_of (accumulate key sel txs) k"
    unfolding map_of_accumulate
    using filter_perm_Nil [OF assms(2)] fsum_filter_perm [OF assms] by simp
qed

lemma dict2_accumulate2_perm:
  assumes "exactly_summable e (map tx_amount txs)" "mset txs' = mset txs"
  shows "dict2 (accumulate2 mkey key sel txs') = dict2 (accumulate2 mkey key sel txs)"
proof
  fix m
  let ?P = "\<lambda>tx. sel tx \<and> mkey tx = m"
  have ex: "exactly_summable e (map tx_amount (filter ?P txs))"
    using assms(1) amounts_filter_sub by (rule exactly_summable_mset)
  have "mset (filter ?P txs') = mset (filter ?P txs)"
    using assms(2) by (metis mset_filter)
  then have "map_of (accumulate key (\<lambda>tx. True) (filter ?P txs'))
      = map_of (accumulate key (\<lambda>tx. True) (filter ?P txs))"
    using ex by (intro map_of_accumulate_perm)
  then show "dict2 (accumulate2 mkey key sel txs') m = dict2 (accumulate2 mkey key sel txs) m"
    using filter_perm_Nil [OF assms(2), of ?P] by (simp add: dict2_def map_of_accumulate2)
qed

lemma keys_accumulate:
  "set (map fst (accumulate key sel txs)) = key ` {tx \<in> set txs. sel tx}"
proof -
  have "set (map fst (accumulate key sel txs)) = dom (map_of (accumulate key sel txs))"
    by (simp add: dom_map_of_conv_image_fst)
  also have "\<dots> = key ` {tx \<in> set txs. sel tx}"
    by (auto simp: dom_def map_of_accumulate filter_empty_conv split: if_splits)
  finally show ?thesis .
qed

lemma months_perm:
  assumes "mset txs' = mset txs"
  shows "fst (compute_aggregates txs') = fst (compute_aggregates txs)"
proof -
  have s: "set txs' = set txs"
    using assms by (rule mset_eq_setD)
  have "\<And>xs ys :: string list. set xs = set ys \<Longrightarrow> sort (remdups xs) = sort (remdups ys)"
    by (metis sorted_list_of_set_sort_remdups)
  then show ?thesis
    by (simp add: compute_aggregates_def Let_def foldl_aggregate_step keys_accumulate s
        del: set_map map_append)
qed

section \<open>Evaluating the examples\<close>

lemma round64_tenth: "round64 (1 / 10) = Fin (3602879701896397 / 36028797018963968)"
proof -
  have "round64 (1 / 10) = Fin (of_int 7205759403792794 * pow2 (- 4 - 52))"
    by (rule round64_at) (simp_all add: pow2_def round_half_even_def Let_def)
  then show ?thesis
    by (simp add: pow2_def)
qed

lemma round64_fifth: "round64 (1 / 5) = Fin (3602879701896397 / 18014398509481984)"
proof -
  have "round64 (1 / 5) = Fin (of_int 7205759403792794 * pow2 (- 3 - 52))"
    by (rule round64_at) (simp_all add: pow2_def round_half_even_def Let_def)
  then show ?thesis
    by (simp add: pow2_def)
qed

lemma round64_three_tenths: "round64 (3 / 10) = Fin (5404319552844595 / 18014398509481984)"
proof -
  have "round64 (3 / 10) = Fin (of_int 5404319552844595 * pow2 (- 2 - 52))"
    by (rule round64_at) (simp_all add: pow2_def round_half_even_def Let_def)
  then show ?thesis
    by (simp add: pow2_def)
qed

lemma round64_nine_tenths: "round64 (9 / 10) = Fin (8106479329266893 / 9007199254740992)"
proof -
  have "round64 (9 / 10) = Fin (of_int 8106479329266893 * pow2 (- 1 - 52))"
    by (rule round64_at) (simp_all add: pow2_def round_half_even_def Let_def)
  then show ?thesis
    by (simp add: pow2_def)
qed

lemma fadd_ex1: "fadd (Fin 0) (Fin (3602879701896397 / 36028797018963968)) = Fin (3602879701896397 / 36028797018963968)"
proof -
  have "round64 (0 + (3602879701896397 / 36028797018963968)) = Fin (of_int 7205759403792794 * pow2 (- 4 - 52))"
    by (rule round64_at) (simp_all add: pow2_def round_half_even_def Let_def)
  then show ?thesis
    by (simp add: pow2_def)
qed

lemma fadd_ex2: "fadd (Fin (3602879701896397 / 36028797018963968)) (Fin (3602879701896397 / 18014398509481984)) = Fin (1351079888211149 / 4503599627370496)"
proof -
  have "round64 ((3602879701896397 / 36028797018963968) + (3602879701896397 / 18014398509481984)) = Fin (of_int 5404319552844596 * pow2 (- 2 - 52))"
    by (rule round64_at) (simp_all add: pow2_def round_half_even_def Let_def)
  then show ?thesis
    by (simp add: pow2_def)
qed

lemma fadd_ex3: "fadd (Fin (1351079888211149 / 4503599627370496)) (Fin (5404319552844595 / 18014398509481984)) = Fin (1351079888211149 / 2251799813685248)"
proof -
  have "round64 ((1351079888211149 / 4503599627370496) + (5404319552844595 / 18014398509481984)) = Fin (of_int 5404319552844596 * pow2 (- 1 - 52))"
    by (rule round64_at) (simp_all add: pow2_def round_half_even_def Let_def)
  then show ?thesis
    by (simp add: pow2_def)
qed

lemma fadd_ex4: "fadd (Fin 0) (Fin (5404319552844595 / 18014398509481984)) = Fin (5404319552844595 / 18014398509481984)"
proof -
  have "round64 (0 + (5404319552844595 / 18014398509481984)) = Fin (of_int 5404319552844595 * pow2 (- 2 - 52))"
    by (rule round64_at) (simp_all add: pow2_def round_half_even_def Let_def)
  then show ?thesis
    by (simp add: pow2_def)
qed

lemma fadd_ex5: "fadd (Fin (5404319552844595 / 18014398509481984)) (Fin (3602879701896397 / 18014398509481984)) = Fin (1 / 2)"
proof -
  have "round64 ((5404319552844595 / 18014398509481984) + (3602879701896397 / 18014398509481984)) = Fin (of_int 4503599627370496 * pow2 (- 1 - 52))"
    by (rule round64_at) (simp_all add: pow2_def round_half_even_def Let_def)
  then show ?thesis
    by (simp add: pow2_def)
qed

lemma fadd_ex6: "fadd (Fin (1 / 2)) (Fin (3602879701896397 / 36028797018963968)) = Fin (5404319552844595 / 9007199254740992)"
proof -
  have "round64 ((1 / 2) + (3602879701896397 / 36028797018963968)) = Fin (of_int 5404319552844595 * pow2 (- 1 - 52))"
    by (rule round64_at) (simp_all add: pow2_def round_half_even_def Let_def)
  then show ?thesis
    by (simp add: pow2_def)
qed

lemma fadd_ex7: "fadd (Fin (1351079888211149 / 4503599627370496)) (Fin (8106479329266893 / 9007199254740992)) = Fin (1351079888211149 / 1125899906842624)"
proof -
  have "round64 ((1351079888211149 / 4503599627370496) + (8106479329266893 / 9007199254740992)) = Fin (of_int 5404319552844596 * pow2 (0 - 52))"
    by (rule round64_at) (simp_all add: pow2_def round_half_even_def Let_def)
  then show ?thesis
    by (simp add: pow2_def)
qed

lemma fadd_ex8: "fadd (Fin (3602879701896397 / 36028797018963968)) (Fin (8106479329266893 / 9007199254740992)) = Fin 1"
proof -
  have "round64 ((3602879701896397 / 36028797018963968) + (8106479329266893 / 9007199254740992)) = Fin (of_int 4503599627370496 * pow2 (0 - 52))"
    by (rule round64_at) (simp_all add: pow2_def round_half_even_def Let_def)
  then show ?thesis
    by (simp add: pow2_def)
qed

lemma fadd_ex9: "fadd (Fin 0) (Fin (3602879701896397 / 18014398509481984)) = Fin (3602879701896397 / 18014398509481984)"
proof -
  have "round64 (0 + (3602879701896397 / 18014398509481984)) = Fin (of_int 7205759403792794 * pow2 (- 3 - 52))"
    by (rule round64_at) (simp_all add: pow2_def round_half_even_def Let_def)
  then show ?thesis
    by (simp add: pow2_def)
qed

lemma fadd_ex10: "fadd (Fin 0) (Fin 1) = Fin 1"
proof -
  have "round64 (0 + 1) = Fin (of_int 4503599627370496 * pow2 (0 - 52))"
    by (rule round64_at) (simp_all add: pow2_def round_half_even_def Let_def)
  then show ?thesis
    by (simp add: pow2_def)
qed

lemma fadd_ex11: "fadd (Fin 1) (Fin (3602879701896397 / 18014398509481984)) = Fin (5404319552844595 / 4503599627370496)"
proof -
  have "round64 (1 + (3602879701896397 / 18014398509481984)) = Fin (of_int 5404319552844595 * pow2 (0 - 52))"
    by (rule round64_at) (simp_all add: pow2_def round_half_even_def Let_def)
  then show ?thesis
    by (simp add: pow2_def)
qed

lemmas eval_text = or_empty_def strip_def isspace_def lower_def lower_char_def remove_char_def
  replace_char_def is_digit_def digit_val_def nat_of_digits_def Let_def

lemmas eval_float_of_str = float_of_str_def float_space_def take_sign_def ascii_lower_def
  parse_number_def parse_exponent_def

lemmas eval_date = parse_date_def formats_def strptime_def alt1_def alt2_def digit19_def
  group_int_def valid_date_def days_in_month_def is_leap_def

lemma example_rows_parsed:
  "convert_row fromiso (example_row ''expense'' ''0.1'' ''Miete'') = Inr (example_tx ''expense'' ''Miete'' ''fix'' (3602879701896397 / 36028797018963968))"
  "convert_row fromiso (example_row ''expense'' ''0.2'' ''Miete'') = Inr (example_tx ''expense'' ''Miete'' ''fix'' (3602879701896397 / 18014398509481984))"
  "convert_row fromiso (example_row ''expense'' ''0.3'' ''Miete'') = Inr (example_tx ''expense'' ''Miete'' ''fix'' (5404319552844595 / 18014398509481984))"
  "convert_row fromiso (example_row ''expense'' ''0.9'' ''Miete'') = Inr (example_tx ''expense'' ''Miete'' ''fix'' (8106479329266893 / 9007199254740992))"
  "convert_row fromiso (example_row ''expense'' ''0.2'' ''Kino'') = Inr (example_tx ''expense'' ''Kino'' ''want'' (3602879701896397 / 18014398509481984))"
  "convert_row fromiso (example_row ''income'' ''1200'' ''Lohn'') = Inr (example_tx ''income'' ''Lohn'' ''other'' 1200)"
  "convert_row fromiso (example_row ''expense'' ''600'' ''Miete'') = Inr (example_tx ''expense'' ''Miete'' ''fix'' 600)"
  "convert_row fromiso (example_row ''expense'' ''45,50'' ''Restaurant'') = Inr (example_tx ''expense'' ''Restaurant'' ''want'' (91 / 2))"
  by (simp_all add: convert_row_def example_row_def example_tx_def normalize_kind_def
      parse_amount_def group_for_category_def CATEGORY_TO_GROUP_def eval_text eval_float_of_str
      eval_date round64_tenth round64_fifth round64_three_tenths round64_nine_tenths
      round64_exact [of 1200 0, simplified pow2_def, simplified]
      round64_exact [of 600 0, simplified pow2_def, simplified]
      round64_exact [of 91 "- 1", simplified pow2_def, simplified])

lemmas eval_float = fadd_ex1 fadd_ex2 fadd_ex3 fadd_ex4 fadd_ex5 fadd_ex6 fadd_ex7 fadd_ex8 fadd_ex9
  fadd_ex10 fadd_ex11

section \<open>What \<open>float\<close> accepts\<close>




lemma float_of_str_cases:
  assumes "float_of_str t = Some v" and "take_sign (float_core t) = (neg, body)"
    and "w = map ascii_lower body"
  shows "w = ''inf'' \<or> w = ''infinity'' \<or> w = ''nan'' \<or> (\<exists>q. parse_number body = Some q)"
proof (rule ccontr)
  assume n: "\<not> ?thesis"
  then have "parse_number body = None"
    by simp
  then have "float_of_str t = None"
    using n assms(2)
    by (simp add: float_of_str_def float_core_def Let_def assms(3) del: map_eq_Cons_conv)
  then show False
    using assms(1) by simp
qed







lemma parse_amount_clean:
  "strip s \<noteq> [] \<Longrightarrow>
   parse_amount (Some s) =
     (case float_of_str (clean_amount s) of
        None \<Rightarrow> Inl (MalformedNumber (''could not convert string to float: '' @ repr (clean_amount s)))
      | Some v \<Rightarrow> Inr v)"
  unfolding parse_amount_def clean_amount_def Let_def or_empty_simps by simp














lemma round_half_even_nonneg: "0 \<le> x \<Longrightarrow> 0 \<le> round_half_even x"
  using round_half_even_between [of x] by (metis order_trans zero_le_floor)

lemma round64_nonneg:
  assumes "0 \<le> q"
  shows "round64 q = PInf \<or> (\<exists>r\<ge>0. round64 q = Fin r)"
proof (cases "q = 0")
  case True
  then show ?thesis by (simp add: round64_def)
next
  case False
  define e where "e = max (ilog2 \<bar>q\<bar>) (- 1022) - 52"
  define r where "r = of_int (round_half_even (q / pow2 e)) * pow2 e"
  have "0 \<le> q / pow2 e"
    using assms pow2_pos [of e] by (intro divide_nonneg_pos)
  then have "0 \<le> round_half_even (q / pow2 e)"
    by (rule round_half_even_nonneg)
  then have "0 \<le> r"
    unfolding r_def using pow2_pos [of e] by (intro mult_nonneg_nonneg) (simp_all add: less_imp_le)
  moreover have "round64 q = (if pow2 1024 \<le> \<bar>r\<bar> then PInf else Fin r)"
    using False assms by (simp add: round64_def Let_def e_def r_def)
  ultimately show ?thesis
    by auto
qed

lemma parse_number_nonneg: "parse_number s = Some q \<Longrightarrow> 0 \<le> q"
  by (auto simp: parse_number_def Let_def split: if_splits option.splits)

lemma take_sign_no_minus: "CHR ''-'' \<notin> set s \<Longrightarrow> take_sign s = (neg, body) \<Longrightarrow> \<not> neg"
  by (cases s) (auto simp: take_sign_def split: if_splits)

lemma float_of_str_nonneg:
  assumes "float_of_str t = Some v" "CHR ''-'' \<notin> set t"
  shows "v = NaN \<or> v = PInf \<or> (\<exists>q\<ge>0. v = Fin q)"
proof -
  obtain neg body where ts: "take_sign (float_core t) = (neg, body)"
    by (cases "take_sign (float_core t)")
  have "set (float_core t) \<subseteq> set t"
    unfolding float_core_def remove_char_def
    by (metis (no_types, lifting) filter_is_subset order_trans set_dropWhileD set_rev subsetI)
  then have neg: "\<not> neg"
    using take_sign_no_minus [OF _ ts] assms(2) by blast
  define w where "w = map ascii_lower body"
  from float_of_str_cases [OF assms(1) ts w_def]
  consider "w = ''inf'' \<or> w = ''infinity''" | "w = ''nan''" "\<not> (w = ''inf'' \<or> w = ''infinity'')"
    | q where "parse_number body = Some q" "\<not> (w = ''inf'' \<or> w = ''infinity'')" "w \<noteq> ''nan''"
    by fastforce
  then show ?thesis
  proof cases
    case 1
    then have "float_of_str t = Some PInf"
      using ts neg assms(1)
      by (simp add: float_of_str_def float_core_def Let_def w_def del: map_eq_Cons_conv split: if_splits)
    then show ?thesis using assms(1) by simp
  next
    case 2
    then have "float_of_str t = Some NaN"
      using ts neg assms(1)
      by (simp add: float_of_str_def float_core_def Let_def w_def del: map_eq_Cons_conv split: if_splits)
    then show ?thesis using assms(1) by simp
  next
    case 3
    then have "float_of_str t = Some (round64 q)"
      using ts neg assms(1)
      by (simp add: float_of_str_def float_core_def Let_def w_def del: map_eq_Cons_conv split: if_splits)
    then show ?thesis
      using assms(1) round64_nonneg [OF parse_number_nonneg [OF 3(1)]] by auto
  qed
qed

lemma clean_amount_no_minus: "CHR ''-'' \<notin> set s \<Longrightarrow> CHR ''-'' \<notin> set (clean_amount s)"
proof -
  have "set (strip s) \<subseteq> set s"
    unfolding strip_def by (metis order_trans set_dropWhileD set_rev subsetI)
  then show "CHR ''-'' \<notin> set s \<Longrightarrow> CHR ''-'' \<notin> set (clean_amount s)"
    by (auto simp: clean_amount_def remove_char_def replace_char_def)
qed

lemma parse_amount_nonneg:
  assumes "parse_amount (Some s) = Inr v" "CHR ''-'' \<notin> set s"
  shows "v = NaN \<or> v = PInf \<or> (\<exists>q\<ge>0. v = Fin q)"
proof -
  have ne: "strip s \<noteq> []"
    using assms(1) by (auto simp: parse_amount_def or_empty_simps)
  then have "float_of_str (clean_amount s) = Some v"
    using assms(1) by (simp add: parse_amount_clean split: option.splits)
  then show ?thesis
    using clean_amount_no_minus [OF assms(2)] by (rule float_of_str_nonneg)
qed

section \<open>Order of the transactions\<close>

text \<open>
  Claim C4, as stated: aggregation gives identical totals and sums for every permutation
  of the transaction list. The accumulators are floats, and float addition rounds: the
  three expenses \<open>0.1\<close>, \<open>0.2\<close>, \<open>0.3\<close> (the amounts as \<open>parse_amount\<close> reads them) add
  up to \<open>0.6000000000000001\<close> in this order and to \<open>0.6\<close> in the reverse order, so the
  total expense of \<open>compute_totals\<close> differs between a list and a permutation of it.
\<close>

theorem compute_totals_order_counterexample:
  "mset [example_tx ''expense'' ''Miete'' ''fix'' (5404319552844595 / 18014398509481984),
         example_tx ''expense'' ''Miete'' ''fix'' (3602879701896397 / 18014398509481984),
         example_tx ''expense'' ''Miete'' ''fix'' (3602879701896397 / 36028797018963968)]
   = mset [example_tx ''expense'' ''Miete'' ''fix'' (3602879701896397 / 36028797018963968),
           example_tx ''expense'' ''Miete'' ''fix'' (3602879701896397 / 18014398509481984),
           example_tx ''expense'' ''Miete'' ''fix'' (5404319552844595 / 18014398509481984)]
   \<and> fst (snd (compute_totals
        [example_tx ''expense'' ''Miete'' ''fix'' (3602879701896397 / 36028797018963968),
         example_tx ''expense'' ''Miete'' ''fix'' (3602879701896397 / 18014398509481984),
         example_tx ''expense'' ''Miete'' ''fix'' (5404319552844595 / 18014398509481984)]))
      = Fin (1351079888211149 / 2251799813685248)
   \<and> fst (snd (compute_totals
        [example_tx ''expense'' ''Miete'' ''fix'' (5404319552844595 / 18014398509481984),
         example_tx ''expense'' ''Miete'' ''fix'' (3602879701896397 / 18014398509481984),
         example_tx ''expense'' ''Miete'' ''fix'' (3602879701896397 / 36028797018963968)]))
      = Fin (5404319552844595 / 9007199254740992)"
  by (simp add: compute_totals_def totals_step_def example_tx_def eval_float del: fadd.simps(1))

text \<open>
  Claim C4, amended. For a transaction list whose amounts are exactly summable (finite
  whole multiples of one power of two, of total magnitude below \<open>2\<^sup>5\<^sup>3\<close> units, as whole
  or half francs are) and every permutation of it, aggregation gives identical total
  income, total expense and net, identical months, and identical sums by category, by
  group and by month, the dicts compared as Python compares them.
\<close>

theorem aggregation_order_independent_when_exact:
  assumes "mset txs' = mset txs" and "exactly_summable e (map tx_amount txs)"
  shows "compute_totals txs' = compute_totals txs
    \<and> map_of (sum_expenses_by_category txs') = map_of (sum_expenses_by_category txs)
    \<and> map_of (sum_expenses_by_group txs') = map_of (sum_expenses_by_group txs)
    \<and> fst (compute_aggregates txs') = fst (compute_aggregates txs)
    \<and> map_of (monthly_income (snd (compute_aggregates txs')))
        = map_of (monthly_income (snd (compute_aggregates txs)))
    \<and> map_of (monthly_expense (snd (compute_aggregates txs')))
        = map_of (monthly_expense (snd (compute_aggregates txs)))
    \<and> dict2 (monthly_cat (snd (compute_aggregates txs')))
        = dict2 (monthly_cat (snd (compute_aggregates txs)))
    \<and> dict2 (monthly_group (snd (compute_aggregates txs')))
        = dict2 (monthly_group (snd (compute_aggregates txs)))
    \<and> map_of (totals_by_category (snd (compute_aggregates txs')))
        = map_of (totals_by_category (snd (compute_aggregates txs)))
    \<and> map_of (totals_by_group (snd (compute_aggregates txs')))
        = map_of (totals_by_group (snd (compute_aggregates txs)))"
proof -
  note p = assms(2) assms(1)
  have totals: "compute_totals txs' = compute_totals txs"
    by (simp add: compute_totals_fsum fsum_filter_perm [OF p])
  have snd: "\<And>xs. snd (compute_aggregates xs) = foldl aggregate_step empty_aggregates xs"
    by (simp add: compute_aggregates_def Let_def)
  show ?thesis
    unfolding snd foldl_aggregate_step sum_expenses_by_category_accumulate
      sum_expenses_by_group_accumulate
    by (simp add: totals months_perm [OF assms(1)] map_of_accumulate_perm [OF p]
        dict2_accumulate2_perm [OF p])
qed

theorem aggregation_order_independent_when_exact_witness:
  "mset [example_tx ''expense'' ''Restaurant'' ''want'' (91 / 2),
         example_tx ''income'' ''Lohn'' ''other'' 1200,
         example_tx ''expense'' ''Miete'' ''fix'' 600]
   = mset [example_tx ''income'' ''Lohn'' ''other'' 1200,
           example_tx ''expense'' ''Miete'' ''fix'' 600,
           example_tx ''expense'' ''Restaurant'' ''want'' (91 / 2)]
   \<and> exactly_summable (- 1) (map tx_amount
          [example_tx ''income'' ''Lohn'' ''other'' 1200,
           example_tx ''expense'' ''Miete'' ''fix'' 600,
           example_tx ''expense'' ''Restaurant'' ''want'' (91 / 2)])
   \<and> compute_totals
          [example_tx ''expense'' ''Restaurant'' ''want'' (91 / 2),
           example_tx ''income'' ''Lohn'' ''other'' 1200,
           example_tx ''expense'' ''Miete'' ''fix'' 600]
       = compute_totals
          [example_tx ''income'' ''Lohn'' ''other'' 1200,
           example_tx ''expense'' ''Miete'' ''fix'' 600,
           example_tx ''expense'' ''Restaurant'' ''want'' (91 / 2)]"
proof -
  have p: "mset [example_tx ''expense'' ''Restaurant'' ''want'' (91 / 2),
         example_tx ''income'' ''Lohn'' ''other'' 1200,
         example_tx ''expense'' ''Miete'' ''fix'' 600]
   = mset [example_tx ''income'' ''Lohn'' ''other'' 1200,
           example_tx ''expense'' ''Miete'' ''fix'' 600,
           example_tx ''expense'' ''Restaurant'' ''want'' (91 / 2)]"
    by simp
  have x: "exactly_summable (- 1) (map tx_amount
          [example_tx ''income'' ''Lohn'' ''other'' 1200,
           example_tx ''expense'' ''Miete'' ''fix'' 600,
           example_tx ''expense'' ''Restaurant'' ''want'' (91 / 2)])"
    by (simp add: exactly_summable_def on_grid_def example_tx_def pow2_def)
  show ?thesis
    using aggregation_order_independent_when_exact [OF p x] p x by simp
qed

section \<open>Total expense and the breakdowns\<close>

lemma exactly_summable_alt:
  "exactly_summable e vs \<longleftrightarrow>
     (- 1074 \<le> e \<and> e \<le> 971 \<and> list_all (on_grid e) vs \<and> abs_total vs < pow2 (e + 53))"
  by (simp add: exactly_summable_def abs_total_def)

lemma fadd_exact:
  assumes e: "- 1074 \<le> e" "e \<le> 971"
    and g: "on_grid e v" "on_grid e a"
    and b: "\<bar>value_of v\<bar> + \<bar>value_of a\<bar> < pow2 (e + 53)"
  shows "fadd v a = Fin (value_of v + value_of a)"
    and "on_grid e (Fin (value_of v + value_of a))"
proof -
  from g obtain j k where v: "v = Fin (of_int j * pow2 e)" and a: "a = Fin (of_int k * pow2 e)"
    by (auto elim!: on_grid_cases)
  have s: "of_int j * pow2 e + of_int k * pow2 e = of_int (j + k) * pow2 e"
    by (simp add: algebra_simps)
  have "\<bar>of_int (j + k) * pow2 e\<bar> < pow2 (e + 53)"
    using b unfolding v a s [symmetric] by simp
  then have "round64 (of_int (j + k) * pow2 e) = Fin (of_int (j + k) * pow2 e)"
    using e by (intro round64_grid)
  then have r: "fadd v a = Fin (of_int (j + k) * pow2 e)"
    by (simp only: v a fadd.simps s)
  have w: "value_of v + value_of a = of_int (j + k) * pow2 e"
    by (simp only: v a value_of_Fin s)
  show "fadd v a = Fin (value_of v + value_of a)"
    by (simp only: r w)
  show "on_grid e (Fin (value_of v + value_of a))"
    unfolding on_grid_Fin w by (rule exI [of _ "j + k"]) (rule refl)
qed

lemma on_grid_zero: "on_grid e (Fin 0)"
  by (simp add: on_grid_def)

lemma add_to_exact:
  assumes e: "- 1074 \<le> e" "e \<le> 971" and a: "on_grid e a"
  shows "list_all (on_grid e) (map snd d) \<Longrightarrow> abs_total (map snd d) + \<bar>value_of a\<bar> < pow2 (e + 53)
    \<Longrightarrow> list_all (on_grid e) (map snd (add_to k a d))
        \<and> sum_list (map value_of (map snd (add_to k a d))) = sum_list (map value_of (map snd d)) + value_of a
        \<and> abs_total (map snd (add_to k a d)) \<le> abs_total (map snd d) + \<bar>value_of a\<bar>"
proof (induction d)
  case Nil
  have b: "\<bar>value_of (Fin 0)\<bar> + \<bar>value_of a\<bar> < pow2 (e + 53)"
    using Nil(2) by (simp add: abs_total_def)
  note f = fadd_exact [OF e on_grid_zero a b]
  show ?case
    using f(2) by (simp add: abs_total_def f(1))
next
  case (Cons p d)
  obtain k' v where p: "p = (k', v)"
    by (cases p)
  have nn: "0 \<le> abs_total (map snd d)"
    unfolding abs_total_def by (rule sum_list_nonneg) auto
  show ?case
  proof (cases "k' = k")
    case True
    have v: "on_grid e v"
      using Cons.prems(1) by (simp add: p)
    have b: "\<bar>value_of v\<bar> + \<bar>value_of a\<bar> < pow2 (e + 53)"
      using Cons.prems(2) nn by (simp add: p abs_total_def)
    note f = fadd_exact [OF e v a b]
    show ?thesis
      using Cons.prems True f(2) by (simp add: p abs_total_def f(1))
  next
    case False
    have "abs_total (map snd d) + \<bar>value_of a\<bar> < pow2 (e + 53)"
      using Cons.prems(2) by (simp add: p abs_total_def)
    then show ?thesis
      using Cons.IH Cons.prems(1) False by (simp add: p abs_total_def)
  qed
qed

lemma abs_total_snoc: "abs_total (vs @ [v]) = abs_total vs + \<bar>value_of v\<bar>"
  by (simp add: abs_total_def)

lemma abs_total_nonneg: "0 \<le> abs_total vs"
  unfolding abs_total_def by (rule sum_list_nonneg) auto

lemma accumulate_exact:
  "exactly_summable e (map tx_amount txs) \<Longrightarrow>
     list_all (on_grid e) (map snd (accumulate key sel txs))
     \<and> sum_list (map value_of (map snd (accumulate key sel txs)))
         = sum_list (map value_of (map tx_amount (filter sel txs)))
     \<and> abs_total (map snd (accumulate key sel txs)) \<le> abs_total (map tx_amount txs)"
proof (induction txs rule: rev_induct)
  case Nil
  show ?case by (simp add: accumulate_def abs_total_def)
next
  case (snoc tx txs)
  have ex: "exactly_summable e (map tx_amount txs)"
    using snoc.prems exactly_summable_butlast [of e "map tx_amount txs" "tx_amount tx"] by simp
  note ih = snoc.IH [OF ex]
  have e: "- 1074 \<le> e" "e \<le> 971" and a: "on_grid e (tx_amount tx)"
    and b: "abs_total (map tx_amount txs) + \<bar>value_of (tx_amount tx)\<bar> < pow2 (e + 53)"
    using snoc.prems by (simp_all add: exactly_summable_alt abs_total_snoc)
  show ?case
  proof (cases "sel tx")
    case True
    have "abs_total (map snd (accumulate key sel txs)) + \<bar>value_of (tx_amount tx)\<bar> < pow2 (e + 53)"
      using ih b by linarith
    from add_to_exact [OF e a _ this, of "key tx"] ih
    show ?thesis
      using True by (simp add: accumulate_snoc abs_total_snoc)
  next
    case False
    then show ?thesis
      using ih by (simp add: accumulate_snoc abs_total_snoc) linarith
  qed
qed

lemma sum_values_accumulate:
  assumes "exactly_summable e (map tx_amount txs)"
  shows "sum_values (accumulate key sel txs) = fsum (map tx_amount (filter sel txs))"
proof -
  note acc = accumulate_exact [OF assms, of key sel]
  have e: "- 1074 \<le> e" "e \<le> 971" and b: "abs_total (map tx_amount txs) < pow2 (e + 53)"
    using assms by (simp_all add: exactly_summable_alt)
  have "exactly_summable e (map snd (accumulate key sel txs))"
    using acc e b by (simp add: exactly_summable_alt)
  then have 1: "sum_values (accumulate key sel txs)
      = Fin (sum_list (map value_of (map snd (accumulate key sel txs))))"
    unfolding sum_values_def fsum_def [symmetric] by (rule fsum_exact)
  have "exactly_summable e (map tx_amount (filter sel txs))"
    using assms amounts_filter_sub by (rule exactly_summable_mset)
  then have 2: "fsum (map tx_amount (filter sel txs))
      = Fin (sum_list (map value_of (map tx_amount (filter sel txs))))"
    by (rule fsum_exact)
  show ?thesis
    using 1 2 acc by simp
qed

text \<open>
  Claim C5, as stated: the total expense equals the sum of the values of the sums by
  category and of the sums by group, for every transaction list. The total adds the
  amounts in list order, a breakdown adds them key by key, and the roundings differ: for
  the expenses \<open>0.1\<close> (Miete), \<open>0.2\<close> (Kino), \<open>0.9\<close> (Miete) the total expense is
  \<open>1.2000000000000002\<close>, while the two categories hold \<open>1.0\<close> and \<open>0.2\<close>, whose sum is \<open>1.2\<close>;
  the same holds for the two groups.
\<close>

theorem total_expense_breakdown_counterexample:
  "fst (snd (compute_totals
     [example_tx ''expense'' ''Miete'' ''fix'' (3602879701896397 / 36028797018963968),
      example_tx ''expense'' ''Kino'' ''want'' (3602879701896397 / 18014398509481984),
      example_tx ''expense'' ''Miete'' ''fix'' (8106479329266893 / 9007199254740992)])) = Fin (1351079888211149 / 1125899906842624)
   \<and> sum_expenses_by_category
     [example_tx ''expense'' ''Miete'' ''fix'' (3602879701896397 / 36028797018963968),
      example_tx ''expense'' ''Kino'' ''want'' (3602879701896397 / 18014398509481984),
      example_tx ''expense'' ''Miete'' ''fix'' (8106479329266893 / 9007199254740992)] = [(''Miete'', Fin 1), (''Kino'', Fin (3602879701896397 / 18014398509481984))]
   \<and> sum_values [(''Miete'', Fin 1), (''Kino'', Fin (3602879701896397 / 18014398509481984))] = Fin (5404319552844595 / 4503599627370496)
   \<and> sum_expenses_by_group
     [example_tx ''expense'' ''Miete'' ''fix'' (3602879701896397 / 36028797018963968),
      example_tx ''expense'' ''Kino'' ''want'' (3602879701896397 / 18014398509481984),
      example_tx ''expense'' ''Miete'' ''fix'' (8106479329266893 / 9007199254740992)] = [(''fix'', Fin 1), (''want'', Fin (3602879701896397 / 18014398509481984))]
   \<and> sum_values [(''fix'', Fin 1), (''want'', Fin (3602879701896397 / 18014398509481984))] = Fin (5404319552844595 / 4503599627370496)
   \<and> Fin (1351079888211149 / 1125899906842624) \<noteq> Fin (5404319552844595 / 4503599627370496)"
  by (simp add: compute_totals_def totals_step_def sum_expenses_by_category_def
      sum_expenses_by_group_def sum_values_def example_tx_def eval_float del: fadd.simps(1))

text \<open>
  Claim C5, amended. For a transaction list whose kinds are \<open>income\<close> or \<open>expense\<close>, as
  the parser produces them, and whose amounts are exactly summable, the total expense of
  \<open>compute_totals\<close> equals the sum of the values of the sums by category and of the sums
  by group, those of budget.py and those of \<open>compute_aggregates\<close> alike.
\<close>

theorem total_expense_equals_breakdowns_when_exact:
  assumes "exactly_summable e (map tx_amount txs)"
    and "list_all (\<lambda>tx. tx_kind tx = ''income'' \<or> tx_kind tx = ''expense'') txs"
  shows "sum_values (sum_expenses_by_category txs) = fst (snd (compute_totals txs))
    \<and> sum_values (sum_expenses_by_group txs) = fst (snd (compute_totals txs))
    \<and> sum_values (totals_by_category (snd (compute_aggregates txs))) = fst (snd (compute_totals txs))
    \<and> sum_values (totals_by_group (snd (compute_aggregates txs))) = fst (snd (compute_totals txs))"
proof -
  have "filter (\<lambda>tx. tx_kind tx = ''expense'') txs = filter (\<lambda>tx. \<not> is_income tx) txs"
    using assms(2) by (intro filter_cong) (auto simp: list_all_iff is_income_def)
  then show ?thesis
    by (simp add: sum_expenses_by_category_accumulate sum_expenses_by_group_accumulate
        compute_totals_fsum compute_aggregates_def Let_def foldl_aggregate_step
        sum_values_accumulate [OF assms(1)])
qed

theorem total_expense_equals_breakdowns_when_exact_witness:
  "exactly_summable (- 1) (map tx_amount
      [example_tx ''income'' ''Lohn'' ''other'' 1200,
       example_tx ''expense'' ''Miete'' ''fix'' 600,
       example_tx ''expense'' ''Restaurant'' ''want'' (91 / 2)])
   \<and> list_all (\<lambda>tx. tx_kind tx = ''income'' \<or> tx_kind tx = ''expense'')
      [example_tx ''income'' ''Lohn'' ''other'' 1200,
       example_tx ''expense'' ''Miete'' ''fix'' 600,
       example_tx ''expense'' ''Restaurant'' ''want'' (91 / 2)]
   \<and> sum_values (sum_expenses_by_category
      [example_tx ''income'' ''Lohn'' ''other'' 1200,
       example_tx ''expense'' ''Miete'' ''fix'' 600,
       example_tx ''expense'' ''Restaurant'' ''want'' (91 / 2)])
     = fst (snd (compute_totals
      [example_tx ''income'' ''Lohn'' ''other'' 1200,
       example_tx ''expense'' ''Miete'' ''fix'' 600,
       example_tx ''expense'' ''Restaurant'' ''want'' (91 / 2)]))"
proof -
  have x: "exactly_summable (- 1) (map tx_amount
      [example_tx ''income'' ''Lohn'' ''other'' 1200,
       example_tx ''expense'' ''Miete'' ''fix'' 600,
       example_tx ''expense'' ''Restaurant'' ''want'' (91 / 2)])"
    by (simp add: exactly_summable_def on_grid_def example_tx_def pow2_def)
  have k: "list_all (\<lambda>tx. tx_kind tx = ''income'' \<or> tx_kind tx = ''expense'')
      [example_tx ''income'' ''Lohn'' ''other'' 1200,
       example_tx ''expense'' ''Miete'' ''fix'' 600,
       example_tx ''expense'' ''Restaurant'' ''want'' (91 / 2)]"
    by (simp add: example_tx_def)
  show ?thesis
    using total_expense_equals_breakdowns_when_exact [OF x k] x k by simp
qed

section \<open>A missing cell\<close>

lemma via_or_empty:
  "parse_amount x = parse_amount (Some (or_empty x))"
  "parse_date fromiso x = parse_date fromiso (Some (or_empty x))"
  "normalize_kind x = normalize_kind (Some (or_empty x))"
  "normalize_group x = normalize_group (Some (or_empty x))"
  "group_for_category category x = group_for_category category (Some (or_empty x))"
  by (simp_all add: parse_amount_def parse_date_def normalize_kind_def normalize_group_def
      group_for_category_def or_empty_simps)

lemma convert_row_or_empty:
  assumes "\<And>col. or_empty (r col) = or_empty (r' col)"
  shows "convert_row fromiso r = convert_row fromiso r'"
proof -
  have k: "normalize_kind (r ''kind'') = normalize_kind (r' ''kind'')"
    using via_or_empty(3) [of "r ''kind''"] via_or_empty(3) [of "r' ''kind''"] assms by simp
  have a: "parse_amount (r ''amount'') = parse_amount (r' ''amount'')"
    using via_or_empty(1) [of "r ''amount''"] via_or_empty(1) [of "r' ''amount''"] assms by simp
  have d: "parse_date fromiso (r ''date'') = parse_date fromiso (r' ''date'')"
    using via_or_empty(2) [of fromiso "r ''date''"] via_or_empty(2) [of fromiso "r' ''date''"] assms
    by simp
  have g: "\<And>cat. group_for_category cat (r ''group'') = group_for_category cat (r' ''group'')"
    using via_or_empty(5) [of _ "r ''group''"] via_or_empty(5) [of _ "r' ''group''"] assms by simp
  show ?thesis
    unfolding convert_row_def k a d g assms by (rule refl)
qed

lemma convert_row_absent_cell:
  "convert_row fromiso (r(c := None)) = convert_row fromiso (r(c := Some []))"
  by (rule convert_row_or_empty) (simp add: or_empty_simps)

text \<open>
  Claim C10. Each field normalizer of the parsing interface takes a missing field
  (\<open>None\<close>) to the result it gives for the empty string: \<open>parse_amount\<close> and
  \<open>parse_date\<close> fail with their empty-value error, \<open>normalize_kind\<close> fails with the
  invalid-kind error, \<open>normalize_group\<close> returns \<open>other\<close>. So a row in which a cell is
  absent is converted exactly as the row in which that cell is empty: to the same
  transaction or to the same error.
\<close>

theorem normalizers_total_on_missing_field:
  "parse_amount None = Inl (EmptyValue ''amount ist leer'')
   \<and> parse_amount (Some []) = Inl (EmptyValue ''amount ist leer'')
   \<and> parse_date fromiso None = Inl (EmptyValue ''date ist leer'')
   \<and> parse_date fromiso (Some []) = Inl (EmptyValue ''date ist leer'')
   \<and> normalize_kind None = Inl (InvalidKind ''kind muss income oder expense sein'')
   \<and> normalize_kind (Some []) = Inl (InvalidKind ''kind muss income oder expense sein'')
   \<and> normalize_group None = ''other''
   \<and> normalize_group (Some []) = ''other''
   \<and> convert_row fromiso (r(c := None)) = convert_row fromiso (r(c := Some []))"
  by (simp add: parse_amount_def parse_date_def normalize_kind_def normalize_group_def
      or_empty_simps strip_Nil lower_Nil convert_row_absent_cell)

theorem normalizers_total_on_missing_field_witness:
  "convert_row (\<lambda>v. None) ((\<lambda>col. Some ''x'')(''amount'' := None))
     = convert_row (\<lambda>v. None) ((\<lambda>col. Some ''x'')(''amount'' := Some []))
   \<and> parse_date (\<lambda>v. None) None = Inl (EmptyValue ''date ist leer'')"
  using normalizers_total_on_missing_field [of "\<lambda>v. None" "\<lambda>col. Some ''x''" "''amount''"]
  by simp

section \<open>Rows\<close>

lemma convert_row_fails_iff:
  "(\<exists>e. convert_row fromiso r = Inl e) \<longleftrightarrow> normalizer_fails fromiso r"
  by (auto simp: convert_row_def normalizer_fails_def Let_def split: sum.splits)

lemma convert_row_ok_iff:
  "(\<exists>tx. convert_row fromiso r = Inr tx) \<longleftrightarrow> \<not> normalizer_fails fromiso r"
  using convert_row_fails_iff [of fromiso r] by (cases "convert_row fromiso r") auto

lemma convert_row_fields:
  assumes "convert_row fromiso r = Inr tx"
  shows "parse_amount (r ''amount'') = Inr (tx_amount tx)"
    and "normalize_kind (r ''kind'') = Inr (tx_kind tx)"
    and "parse_date fromiso (r ''date'') = Inr (tx_date_obj tx)"
    and "tx_category tx = strip (or_empty (r ''category''))" and "tx_category tx \<noteq> []"
    and "tx_group tx = group_for_category (tx_category tx) (r ''group'')"
  using assms by (auto simp: convert_row_def Let_def split: sum.splits if_splits)

lemma rows_loop_accepts:
  "rows_loop fromiso sfx n acc rows = Inr txs \<Longrightarrow>
     \<exists>new. txs = acc @ new \<and> length new = length rows
        \<and> (\<forall>i<length rows. convert_row fromiso (rows ! i) = Inr (new ! i))"
proof (induction rows arbitrary: n acc)
  case Nil
  then show ?case by simp
next
  case (Cons r rows)
  from Cons.prems obtain tx where tx: "convert_row fromiso r = Inr tx"
    and rest: "rows_loop fromiso sfx (n + 1) (acc @ [tx]) rows = Inr txs"
    by (auto simp: Let_def split: sum.splits)
  from Cons.IH [OF rest] obtain new where new: "txs = (acc @ [tx]) @ new" "length new = length rows"
    "\<forall>i<length rows. convert_row fromiso (rows ! i) = Inr (new ! i)"
    by blast
  have "\<forall>i<length (r # rows). convert_row fromiso ((r # rows) ! i) = Inr ((tx # new) ! i)"
    using tx new(3) by (auto simp: nth_Cons split: nat.splits)
  then show ?case
    using new(1,2) by (intro exI [of _ "tx # new"]) simp
qed

lemma rows_loop_first_failure:
  "i < length rows \<Longrightarrow> convert_row fromiso (rows ! i) = Inl e
    \<Longrightarrow> (\<forall>j<i. \<exists>tx. convert_row fromiso (rows ! j) = Inr tx)
    \<Longrightarrow> rows_loop fromiso sfx n acc rows = Inl (RowFailure (n + i + 1) e sfx)"
proof (induction rows arbitrary: i n acc)
  case Nil
  then show ?case by simp
next
  case (Cons r rows)
  show ?case
  proof (cases i)
    case 0
    then show ?thesis
      using Cons.prems by (simp add: Let_def)
  next
    case (Suc k)
    from Cons.prems(3) Suc obtain tx where tx: "convert_row fromiso r = Inr tx"
      by fastforce
    have "rows_loop fromiso sfx (n + 1) (acc @ [tx]) rows = Inl (RowFailure (n + 1 + k + 1) e sfx)"
      using Cons.prems Suc by (intro Cons.IH) auto
    then show ?thesis
      using tx Suc by (simp add: Let_def)
  qed
qed

lemma check_columns_None: "check_columns fns cols = None \<longleftrightarrow> set cols \<subseteq> set fns"
  by (induction cols) auto

lemma check_columns_first:
  "check_columns fns cols = Some e \<Longrightarrow>
     \<exists>col. e = MissingColumns (''Spalte fehlt: '' @ col) \<and> col \<in> set cols \<and> col \<notin> set fns"
  by (induction cols) (auto split: if_splits)

lemma load_transactions_rows:
  "set required \<subseteq> set fns \<Longrightarrow> load_transactions fromiso (Some fns) rows = rows_loop fromiso [] 1 [] rows"
  by (simp add: load_transactions_def check_columns_None [THEN iffD2])

lemma upload_rows:
  "set required \<subseteq> set fns \<Longrightarrow>
   parse_transactions_from_upload fromiso (Some fns) rows filename =
     (case rows_loop fromiso (upload_suffix filename) 1 [] rows of
        Inl e \<Rightarrow> Inl e
      | Inr txs \<Rightarrow> Inr \<lparr>transactions = txs,
                        warnings = (if length txs = 0
                                    then [''CSV enth'' @ [CHR 0xE4] @ ''lt keine Datenzeilen (nur Header?)'']
                                    else [])\<rparr>)"
  unfolding parse_transactions_from_upload_def upload_suffix_def Let_def
  by (simp add: filter_empty_conv subset_iff)

lemma upload_names_every_missing_column:
  assumes "\<not> set required \<subseteq> set fns"
  shows "\<exists>names. parse_transactions_from_upload fromiso (Some fns) rows filename
            = Inl (MissingColumns (''Spalten fehlen: '' @ join '', '' names))
          \<and> set names = set required - set fns \<and> sorted names \<and> distinct names"
proof -
  define names where "names = sort (filter (\<lambda>c. c \<notin> set fns) (remdups required))"
  have "filter (\<lambda>c. c \<notin> set fns) (remdups required) \<noteq> []"
    using assms by (auto simp: filter_empty_conv)
  then have "parse_transactions_from_upload fromiso (Some fns) rows filename
      = Inl (MissingColumns (''Spalten fehlen: '' @ join '', '' names))"
    unfolding parse_transactions_from_upload_def Let_def names_def by simp
  moreover have "set names = set required - set fns" "sorted names" "distinct names"
    by (auto simp: names_def)
  ultimately show ?thesis
    by blast
qed

subsection \<open>Rows of a file\<close>

lemma header_ok: "set required \<subseteq> set [''date'', ''kind'', ''amount'', ''category'']"
  by (simp add: required_def)

lemmas eval_csv = csv_reader_def file_lines_def parse_reset_def parse_process_char_def start_field_def
      parse_add_char_def parse_save_field_def is_newline_def field_limit_def

lemma blank_line_file_records:
  "csv_reader blank_line_file
   = ([([''date'', ''kind'', ''amount'', ''category''], 1), ([], 2),
       ([''2026-01-05'', ''expense'', [], ''Miete''], 3)], False)"
  by (simp add: blank_line_file_def eval_csv)

lemma bad_third_line_file_records:
  "csv_reader bad_third_line_file
   = ([([''date'', ''kind'', ''amount'', ''category''], 1),
       ([''2026-01-05'', ''income'', ''1200'', ''Lohn''], 2),
       ([''2026-01-05'', ''expense'', [], ''Miete''], 3)], False)"
  by (simp add: bad_third_line_file_def eval_csv)

lemma dict_row_example:
  "dict_row [''date'', ''kind'', ''amount'', ''category''] [d, k, a, c]
   = [''date'' \<mapsto> d, ''kind'' \<mapsto> k, ''amount'' \<mapsto> a, ''category'' \<mapsto> c]"
  by (rule ext) (simp add: dict_row_def)

lemma take_filter_prefix:
  "k \<le> length xs \<Longrightarrow> \<forall>x\<in>set (take k xs). P x \<Longrightarrow> take k (filter P xs) = take k xs"
proof (induction xs arbitrary: k)
  case Nil
  then show ?case by simp
next
  case (Cons x xs)
  then show ?case by (cases k) auto
qed

lemma nth_filter_prefix:
  assumes "i < length xs" and "\<forall>x\<in>set (take (Suc i) xs). P x"
  shows "i < length (filter P xs) \<and> filter P xs ! i = xs ! i"
proof -
  have t: "take (Suc i) (filter P xs) = take (Suc i) xs"
    using assms by (intro take_filter_prefix) auto
  have "length (take (Suc i) (filter P xs)) = Suc i"
    using assms(1) by (simp add: t)
  then have l: "i < length (filter P xs)"
    by simp
  have "filter P xs ! i = take (Suc i) (filter P xs) ! i"
    by simp
  also have "\<dots> = xs ! i"
    by (simp add: t)
  finally show ?thesis
    using l by simp
qed

lemma lines_are_records_row:
  assumes "lines_are_records text (i + 2)"
  shows "i < length (file_rows text) \<and> snd (file_rows text ! i) = i + 2"
proof -
  define recs where "recs = fst (csv_reader text)"
  from assms have m: "map snd (take (i + 2) recs) = [1..<i + 2 + 1]"
    and b: "[] \<notin> set (map fst (take (i + 2) recs))"
    by (simp_all add: lines_are_records_def recs_def Let_def)
  from m have "length (map snd (take (i + 2) recs)) = length [1..<i + 2 + 1]"
    by (rule arg_cong)
  then have len: "i + 2 \<le> length recs"
    by (simp del: upt_Suc)
  then obtain h rest where recs: "recs = h # rest"
    by (cases recs) auto
  have li: "i < length rest"
    using len recs by simp
  have nb: "\<forall>r\<in>set (take (Suc i) rest). fst r \<noteq> []"
    using b recs by (force simp: image_iff)
  have "snd (rest ! i) = map snd (take (i + 2) recs) ! (i + 1)"
    using li recs by simp
  also have "\<dots> = i + 2"
    unfolding m by (simp add: nth_upt del: upt_Suc)
  finally have s: "snd (rest ! i) = i + 2" .
  from nth_filter_prefix [OF li nb]
  have f: "i < length (filter (\<lambda>r. fst r \<noteq> []) rest)"
    "filter (\<lambda>r. fst r \<noteq> []) rest ! i = rest ! i"
    by auto
  show ?thesis
    using f s by (simp add: file_rows_def reader_rows_def recs_def [symmetric] recs)
qed

lemma load_transactions_file_error:
  assumes "load_transactions fromiso (file_fieldnames text) (map fst (file_rows text)) = Inl e"
    and "file_fieldnames text \<noteq> None"
  shows "load_transactions_file fromiso text = Some (Inl e)"
proof -
  obtain recs raised where c: "csv_reader text = (recs, raised)"
    by (cases "csv_reader text")
  from assms(2) have "recs \<noteq> []"
    by (auto simp: file_fieldnames_def reader_fieldnames_def c)
  then show ?thesis
    using assms(1) by (simp add: load_transactions_file_def c file_fieldnames_def file_rows_def)
qed

lemma blank_line_file_rows:
  "file_fieldnames blank_line_file = Some [''date'', ''kind'', ''amount'', ''category'']"
  "file_rows blank_line_file = [(example_row ''expense'' [] ''Miete'', 3)]"
  by (simp_all add: file_fieldnames_def file_rows_def reader_fieldnames_def reader_rows_def
      blank_line_file_records dict_row_example example_row_def)

lemma bad_third_line_file_rows:
  "file_fieldnames bad_third_line_file = Some [''date'', ''kind'', ''amount'', ''category'']"
  "file_rows bad_third_line_file
   = [(example_row ''income'' ''1200'' ''Lohn'', 2), (example_row ''expense'' [] ''Miete'', 3)]"
  by (simp_all add: file_fieldnames_def file_rows_def reader_fieldnames_def reader_rows_def
      bad_third_line_file_records dict_row_example example_row_def)

lemma empty_amount_row:
  "convert_row fromiso (example_row ''expense'' [] ''Miete'') = Inl (EmptyValue ''amount ist leer'')"
  by (simp add: convert_row_def example_row_def normalize_kind_def parse_amount_def eval_text)

section \<open>Amount Normalizer\<close>





section \<open>Stored amounts\<close>

text \<open>
  Claim C1, as stated: the stored amount of an accepted row is a finite non-negative
  number, and the amount normalizer never returns a negative, infinite or NaN value.
  \<open>parse_amount\<close> returns what \<open>float\<close> reads and checks neither sign nor finiteness: the
  row with the amount \<open>-5\<close> is accepted with the amount \<open>-5.0\<close>, and the text \<open>-inf\<close> gives
  minus infinity.
\<close>

theorem negative_amount_counterexample:
  "load_transactions (\<lambda>v. None) (Some [''date'', ''kind'', ''amount'', ''category''])
     [example_row ''expense'' ''-5'' ''Miete'']
   = Inr [example_tx ''expense'' ''Miete'' ''fix'' (- 5)]
   \<and> parse_amount (Some ''-inf'') = Inr NInf"
proof -
  have r: "round64 (- 5) = Fin (- 5)"
    using round64_exact [of "- 5" 0] by (simp add: pow2_def)
  have "convert_row (\<lambda>v. None) (example_row ''expense'' ''-5'' ''Miete'')
      = Inr (example_tx ''expense'' ''Miete'' ''fix'' (- 5))"
    by (simp add: convert_row_def example_row_def example_tx_def normalize_kind_def
      parse_amount_def group_for_category_def CATEGORY_TO_GROUP_def eval_text eval_float_of_str
      eval_date r)
  moreover have "parse_amount (Some ''-inf'') = Inr NInf"
    by (simp add: parse_amount_def eval_text eval_float_of_str)
  ultimately show ?thesis
    by (simp add: load_transactions_def required_def Let_def)
qed

text \<open>
  Claim C1, amended. For every row accepted by either parser, the stored amount is the
  value that \<open>parse_amount\<close> returns for the amount text of that row, never a default, and
  a file with a row whose amount text \<open>parse_amount\<close> rejects is rejected as a whole. That
  value is a non-negative finite number, plus infinity or NaN when the text holds no
  minus sign; with one it can be negative.
\<close>

theorem accepted_rows_store_parsed_amount:
  "(load_transactions fromiso fieldnames rows = Inr txs \<longrightarrow>
      length txs = length rows
      \<and> (\<forall>i<length rows. parse_amount ((rows ! i) ''amount'') = Inr (tx_amount (txs ! i))))
   \<and> (parse_transactions_from_upload fromiso fieldnames rows filename = Inr parsed \<longrightarrow>
      length (transactions parsed) = length rows
      \<and> (\<forall>i<length rows. parse_amount ((rows ! i) ''amount'') = Inr (tx_amount (transactions parsed ! i))))
   \<and> (r \<in> set rows' \<and> isl (parse_amount (r ''amount'')) \<longrightarrow>
      isl (load_transactions fromiso fieldnames rows')
      \<and> isl (parse_transactions_from_upload fromiso fieldnames rows' filename))
   \<and> (parse_amount (Some s) = Inr v \<and> CHR ''-'' \<notin> set s \<longrightarrow>
      v = NaN \<or> v = PInf \<or> (\<exists>q\<ge>0. v = Fin q))"
proof -
  have loop: "\<And>sfx txs. rows_loop fromiso sfx 1 [] rows = Inr txs \<Longrightarrow>
      length txs = length rows
      \<and> (\<forall>i<length rows. parse_amount ((rows ! i) ''amount'') = Inr (tx_amount (txs ! i)))"
  proof -
    fix sfx txs
    assume "rows_loop fromiso sfx 1 [] rows = Inr txs"
    from rows_loop_accepts [OF this] have "length txs = length rows"
      and c: "\<forall>i<length rows. convert_row fromiso (rows ! i) = Inr (txs ! i)"
      by auto
    then show "length txs = length rows
      \<and> (\<forall>i<length rows. parse_amount ((rows ! i) ''amount'') = Inr (tx_amount (txs ! i)))"
      using convert_row_fields(1) by blast
  qed
  have a: "load_transactions fromiso fieldnames rows = Inr txs \<longrightarrow>
      length txs = length rows
      \<and> (\<forall>i<length rows. parse_amount ((rows ! i) ''amount'') = Inr (tx_amount (txs ! i)))"
    using loop [of "[]" txs]
    by (auto simp: load_transactions_def split: option.splits)
  have b: "parse_transactions_from_upload fromiso fieldnames rows filename = Inr parsed \<longrightarrow>
      length (transactions parsed) = length rows
      \<and> (\<forall>i<length rows. parse_amount ((rows ! i) ''amount'') = Inr (tx_amount (transactions parsed ! i)))"
  proof
    assume p: "parse_transactions_from_upload fromiso fieldnames rows filename = Inr parsed"
    then obtain sfx where "rows_loop fromiso sfx 1 [] rows = Inr (transactions parsed)"
      unfolding parse_transactions_from_upload_def Let_def
      by (auto split: option.splits if_splits sum.splits)
    then show "length (transactions parsed) = length rows
      \<and> (\<forall>i<length rows. parse_amount ((rows ! i) ''amount'') = Inr (tx_amount (transactions parsed ! i)))"
      by (rule loop)
  qed
  have c: "r \<in> set rows' \<and> isl (parse_amount (r ''amount'')) \<longrightarrow>
      isl (load_transactions fromiso fieldnames rows')
      \<and> isl (parse_transactions_from_upload fromiso fieldnames rows' filename)"
  proof
    assume h: "r \<in> set rows' \<and> isl (parse_amount (r ''amount''))"
    then obtain i where i: "i < length rows'" "rows' ! i = r"
      by (auto simp: in_set_conv_nth)
    have bad: "\<And>sfx txs. rows_loop fromiso sfx 1 [] rows' \<noteq> Inr txs"
    proof
      fix sfx txs
      assume "rows_loop fromiso sfx 1 [] rows' = Inr txs"
      from rows_loop_accepts [OF this] i have "\<exists>tx. convert_row fromiso r = Inr tx"
        by auto
      then have "\<not> isl (parse_amount (r ''amount''))"
        using convert_row_fields(1) by fastforce
      then show False
        using h by simp
    qed
    have 1: "isl (load_transactions fromiso fieldnames rows')"
      using bad [of "[]"]
      by (cases "load_transactions fromiso fieldnames rows'")
         (auto simp: load_transactions_def split: option.splits)
    have 2: "isl (parse_transactions_from_upload fromiso fieldnames rows' filename)"
    proof (cases "parse_transactions_from_upload fromiso fieldnames rows' filename")
      case (Inl e)
      then show ?thesis by simp
    next
      case (Inr parsed)
      then obtain sfx where "rows_loop fromiso sfx 1 [] rows' = Inr (transactions parsed)"
        unfolding parse_transactions_from_upload_def Let_def
        by (auto split: option.splits if_splits sum.splits)
      then show ?thesis
        using bad by blast
    qed
    from 1 2 show "isl (load_transactions fromiso fieldnames rows')
      \<and> isl (parse_transactions_from_upload fromiso fieldnames rows' filename)" ..
  qed
  show ?thesis
    using a b c parse_amount_nonneg [of s v] by blast
qed

theorem accepted_rows_store_parsed_amount_witness:
  "load_transactions (\<lambda>v. None) (Some [''date'', ''kind'', ''amount'', ''category''])
      [example_row ''expense'' ''45,50'' ''Restaurant'']
     = Inr [example_tx ''expense'' ''Restaurant'' ''want'' (91 / 2)]
   \<and> parse_amount ((example_row ''expense'' ''45,50'' ''Restaurant'') ''amount'') = Inr (Fin (91 / 2))
   \<and> parse_transactions_from_upload (\<lambda>v. None) (Some [''date'', ''kind'', ''amount'', ''category''])
      [example_row ''expense'' ''45,50'' ''Restaurant''] None
     = Inr \<lparr>transactions = [example_tx ''expense'' ''Restaurant'' ''want'' (91 / 2)], warnings = []\<rparr>
   \<and> isl (parse_amount ((example_row ''expense'' ''CHF 12'' ''Miete'') ''amount''))
   \<and> isl (load_transactions (\<lambda>v. None) (Some [''date'', ''kind'', ''amount'', ''category''])
      [example_row ''expense'' ''CHF 12'' ''Miete''])
   \<and> isl (parse_transactions_from_upload (\<lambda>v. None) (Some [''date'', ''kind'', ''amount'', ''category''])
      [example_row ''expense'' ''CHF 12'' ''Miete''] None)
   \<and> parse_amount (Some ''45,50'') = Inr (Fin (91 / 2)) \<and> CHR ''-'' \<notin> set ''45,50''"
proof -
  let ?h = "Some [''date'', ''kind'', ''amount'', ''category'']"
  let ?r = "example_row ''expense'' ''45,50'' ''Restaurant''"
  let ?t = "example_tx ''expense'' ''Restaurant'' ''want'' (91 / 2)"
  let ?b = "example_row ''expense'' ''CHF 12'' ''Miete''"
  have 1: "load_transactions (\<lambda>v. None) ?h [?r] = Inr [?t]"
    by (simp add: load_transactions_rows [OF header_ok] example_rows_parsed Let_def)
  have 2: "parse_transactions_from_upload (\<lambda>v. None) ?h [?r] None
      = Inr \<lparr>transactions = [?t], warnings = []\<rparr>"
    by (simp add: upload_rows [OF header_ok] example_rows_parsed Let_def)
  have "isl (parse_amount (Some ''CHF 12''))"
    by (simp add: parse_amount_def eval_text eval_float_of_str)
  then have 3: "isl (parse_amount (?b ''amount''))"
    by (simp add: example_row_def)
  have 4: "parse_amount (Some ''45,50'') = Inr (Fin (91 / 2))"
    using convert_row_fields(1) [OF example_rows_parsed(8) [of "\<lambda>v. None"]]
    by (simp add: example_row_def example_tx_def)
  note c = accepted_rows_store_parsed_amount [of "\<lambda>v. None" ?h "[?r]" "[?t]" None
      "\<lparr>transactions = [?t], warnings = []\<rparr>" ?b "[?b]" "''45,50''" "Fin (91 / 2)"]
  show ?thesis
    using c 1 2 3 4 by (simp add: example_row_def example_tx_def)
qed

section \<open>Row failures\<close>

text \<open>
  Claim C3, as stated: the error carries the line number of the failing row in the file.
  \<open>line_nr\<close> counts the rows that the reader yields, and \<open>csv.DictReader\<close> yields no row for
  a blank line: in the file whose line 2 is blank and whose line 3 is a row with an empty
  amount, the only data row ends on line 3 and the error says line 2.
\<close>

theorem blank_line_shifts_row_number:
  "load_transactions_file (\<lambda>v. None) blank_line_file
     = Some (Inl (RowFailure 2 (EmptyValue ''amount ist leer'') []))
   \<and> map snd (file_rows blank_line_file) = [3]
   \<and> str_of_error (RowFailure 2 (EmptyValue ''amount ist leer'') []) = ''Fehler in Zeile 2: amount ist leer''"
proof -
  have "load_transactions (\<lambda>v. None) (file_fieldnames blank_line_file)
      (map fst (file_rows blank_line_file)) = Inl (RowFailure 2 (EmptyValue ''amount ist leer'') [])"
    by (simp add: blank_line_file_rows load_transactions_rows [OF header_ok] empty_amount_row)
  then have "load_transactions_file (\<lambda>v. None) blank_line_file
     = Some (Inl (RowFailure 2 (EmptyValue ''amount ist leer'') []))"
    by (rule load_transactions_file_error) (simp add: blank_line_file_rows)
  moreover have "str_nat 2 = ''2''"
    by (simp add: str_nat.simps digit_char_def char_of_eq_iff)
  ultimately show ?thesis
    by (simp add: blank_line_file_rows)
qed

text \<open>
  Claim C3, amended. When some row that the reader yields fails a normalizer, both parsers
  fail with one row failure that carries the cause raised for the first such row and its
  number among the rows of the reader, the header counting as 1: the row of index \<open>i\<close> has
  the number \<open>i + 2\<close>. The result is the error alone: no transaction list comes with it.
  Blank lines are not counted and a quoted cell that spans several lines counts once, so
  the number is the line of the row in the file when every line up to it holds one record.
\<close>

theorem first_failing_row_aborts_parse:
  assumes "set required \<subseteq> set fieldnames"
    and "i < length rows" and "normalizer_fails fromiso (rows ! i)"
    and "\<forall>j<i. \<not> normalizer_fails fromiso (rows ! j)"
  shows "\<exists>cause. convert_row fromiso (rows ! i) = Inl cause
     \<and> load_transactions fromiso (Some fieldnames) rows = Inl (RowFailure (i + 2) cause [])
     \<and> parse_transactions_from_upload fromiso (Some fieldnames) rows filename
         = Inl (RowFailure (i + 2) cause (upload_suffix filename))
     \<and> (file_fieldnames text = Some fieldnames \<and> map fst (file_rows text) = rows \<longrightarrow>
          load_transactions_file fromiso text = Some (Inl (RowFailure (i + 2) cause []))
          \<and> (lines_are_records text (i + 2) \<longrightarrow> snd (file_rows text ! i) = i + 2))"
proof -
  from assms(3) obtain cause where cause: "convert_row fromiso (rows ! i) = Inl cause"
    using convert_row_fails_iff by blast
  have ok: "\<forall>j<i. \<exists>tx. convert_row fromiso (rows ! j) = Inr tx"
    using assms(4) convert_row_ok_iff by blast
  have loop: "\<And>sfx. rows_loop fromiso sfx 1 [] rows = Inl (RowFailure (i + 2) cause sfx)"
    using rows_loop_first_failure [OF assms(2) cause ok, of _ 1 "[]"] by simp
  have 1: "load_transactions fromiso (Some fieldnames) rows = Inl (RowFailure (i + 2) cause [])"
    by (simp only: load_transactions_rows [OF assms(1)] loop)
  have 2: "parse_transactions_from_upload fromiso (Some fieldnames) rows filename
         = Inl (RowFailure (i + 2) cause (upload_suffix filename))"
    by (simp only: upload_rows [OF assms(1)] loop sum.case)
  have 3: "load_transactions_file fromiso text = Some (Inl (RowFailure (i + 2) cause []))"
    if "file_fieldnames text = Some fieldnames" "map fst (file_rows text) = rows"
    using that 1 by (intro load_transactions_file_error) simp_all
  have 4: "snd (file_rows text ! i) = i + 2" if "lines_are_records text (i + 2)"
    using lines_are_records_row [OF that] by simp
  show ?thesis
    using cause 1 2 3 4 by blast
qed

theorem first_failing_row_aborts_parse_witness:
  "set required \<subseteq> set [''date'', ''kind'', ''amount'', ''category'']
   \<and> file_fieldnames bad_third_line_file = Some [''date'', ''kind'', ''amount'', ''category'']
   \<and> map fst (file_rows bad_third_line_file)
       = [example_row ''income'' ''1200'' ''Lohn'', example_row ''expense'' [] ''Miete'']
   \<and> normalizer_fails (\<lambda>v. None) (example_row ''expense'' [] ''Miete'')
   \<and> \<not> normalizer_fails (\<lambda>v. None) (example_row ''income'' ''1200'' ''Lohn'')
   \<and> lines_are_records bad_third_line_file 3
   \<and> load_transactions_file (\<lambda>v. None) bad_third_line_file
       = Some (Inl (RowFailure 3 (EmptyValue ''amount ist leer'') []))
   \<and> parse_transactions_from_upload (\<lambda>v. None) (Some [''date'', ''kind'', ''amount'', ''category''])
        [example_row ''income'' ''1200'' ''Lohn'', example_row ''expense'' [] ''Miete''] None
       = Inl (RowFailure 3 (EmptyValue ''amount ist leer'') '' (Datei: upload)'')
   \<and> snd (file_rows bad_third_line_file ! 1) = 3
   \<and> str_of_error (RowFailure 3 (EmptyValue ''amount ist leer'') [])
     = ''Fehler in Zeile 3: amount ist leer''"
proof -
  let ?rows = "[example_row ''income'' ''1200'' ''Lohn'', example_row ''expense'' [] ''Miete'']"
  have f: "normalizer_fails (\<lambda>v. None) (?rows ! 1)"
    using convert_row_fails_iff [of "\<lambda>v. None" "example_row ''expense'' [] ''Miete''"]
    by (simp add: empty_amount_row)
  have g: "\<not> normalizer_fails (\<lambda>v. None) (example_row ''income'' ''1200'' ''Lohn'')"
    using convert_row_ok_iff [of "\<lambda>v. None" "example_row ''income'' ''1200'' ''Lohn''"]
      example_rows_parsed(6) [of "\<lambda>v. None"] by simp
  then have o: "\<forall>j<1. \<not> normalizer_fails (\<lambda>v. None) (?rows ! j)"
    by simp
  have l: "(1::nat) < length ?rows"
    by simp
  have s: "str_nat 3 = ''3''"
    by (simp add: str_nat.simps digit_char_def char_of_eq_iff)
  have r: "lines_are_records bad_third_line_file 3"
    by (simp add: lines_are_records_def bad_third_line_file_records upt_conv_Cons)
  have u: "upload_suffix None = '' (Datei: upload)''"
    by (simp add: upload_suffix_def or_empty_simps)
  from first_failing_row_aborts_parse [OF header_ok l f o, of None bad_third_line_file]
  show ?thesis
    using header_ok f g r by (simp add: s u empty_amount_row bad_third_line_file_rows)
qed

section \<open>Missing columns\<close>

text \<open>
  Claim C2. The dashboard parser names every missing column
  (\<open>upload_names_every_missing_column\<close>). \<open>load_transactions\<close> of budget.py raises at the
  first missing column of its loop: for the header \<open>date, note\<close>, which lacks \<open>kind\<close>,
  \<open>amount\<close> and \<open>category\<close>, its message names \<open>kind\<close> only.
\<close>

theorem load_transactions_names_first_missing_column_only:
  "load_transactions fromiso (Some [''date'', ''note'']) rows = Inl (MissingColumns ''Spalte fehlt: kind'')
   \<and> set required - set [''date'', ''note''] = {''kind'', ''amount'', ''category''}"
  by (auto simp: load_transactions_def required_def)

end
